theory Spec2Isabelle
  imports Complex_Main "HOL-Library.Char_ord" "HOL-Library.List_Lexorder" "HOL-Library.Log_Nat"
begin

section \<open>Data model (db/config.ts)\<close>

text \<open>
  Each table of \<^verbatim>\<open>defineDb\<close> is a list of rows in insertion order. Numbers are
  \<open>int\<close>, a date is the instant it denotes in milliseconds since the epoch (the store keeps
  it as text, see \<open>datetime_text\<close> below), an optional column is an \<open>option\<close>,
  a JSON column is kept as opaque text unless a handler reads inside it (the website settings).
\<close>

datatype vote_type = Up | Down

datatype fb_type = Bug | Feature | Improvement | Question | Compliment | Complaint | Other

datatype fb_status = New | InReview | InProgress | Resolved | Closed | Spam

datatype priority = Low | Medium | High | Urgent

record rate_limit =
  maxSubmissions :: int
  windowMinutes :: int

record settings =
  rateLimit :: "rate_limit option"
  allowedOrigins :: "string list"
  moderationRequired :: bool
  emailNotifications :: bool

record website =
  w_id :: int
  w_name :: string
  w_domain :: string
  w_apiKey :: string
  w_isActive :: bool
  w_settings :: "settings option"

record category =
  c_id :: int
  c_websiteId :: int
  c_name :: string
  c_slug :: string
  c_color :: "string option"

record feedback =
  f_id :: int
  f_websiteId :: int
  f_categoryId :: "int option"
  f_type :: fb_type
  f_status :: fb_status
  f_priority :: priority
  f_title :: string
  f_description :: string
  f_email :: "string option"
  f_name :: "string option"
  f_userAgent :: "string option"
  f_url :: "string option"
  f_ipAddress :: "string option"
  f_metadata :: "string option"
  f_isPublic :: bool
  f_upvotes :: int
  f_downvotes :: int
  f_createdAt :: int
  f_updatedAt :: int

record vote =
  v_id :: int
  v_feedbackId :: int
  v_voterEmail :: "string option"
  v_voterIp :: string
  v_voteType :: vote_type
  v_createdAt :: int

record event_data =
  ed_feedbackId :: int
  ed_type :: fb_type
  ed_hasEmail :: bool
  ed_hasCategory :: bool

record analytics_event =
  a_id :: int
  a_websiteId :: int
  a_eventType :: string
  a_eventData :: "event_data option"
  a_userAgent :: "string option"
  a_ipAddress :: "string option"
  a_createdAt :: int

record db =
  Websites :: "website list"
  FeedbackCategories :: "category list"
  Feedback :: "feedback list"
  FeedbackVotes :: "vote list"
  AnalyticsEvents :: "analytics_event list"

text \<open>
  A \<^verbatim>\<open>column.number({ primaryKey: true })\<close> that the insert leaves out is filled
  by the store with one more than the largest id of the table.
\<close>

definition next_id :: "int list \<Rightarrow> int" where
  "next_id ids = fold max ids 0 + 1"

section \<open>Requests, responses and the environment of a handler\<close>

text \<open>
  Every \<^verbatim>\<open>await db...\<close> of a handler may throw; the handler's
  \<^verbatim>\<open>try { ... } catch\<close> turns that into the 500 envelope, and what was written
  before the throw stays written (no handler opens a transaction). The environment names the
  calls that throw in this run, the two clocks, and the two format checks of the validation
  library, which this repository does not contain. \<open>now\<close> is \<^verbatim>\<open>Date.now()\<close>, in
  milliseconds; \<open>db_now\<close> is the clock of the store, in whole seconds, which fills a date
  column that has \<^verbatim>\<open>default: NOW\<close> when the insert leaves it out.
\<close>

datatype db_call =
    ReadFeedback | ReadWebsite | ReadVote | WriteVote | WriteCounters | ReadCounters
  | CountRecent | InsertFeedback | InsertAnalytics | ReadCategory | CountTotal | ReadPage

record env =
  now :: int
  db_now :: int
  faults :: "db_call set"
  is_email :: "string \<Rightarrow> bool"
  is_url :: "string \<Rightarrow> bool"

definition stored_now :: "env \<Rightarrow> int" where
  "stored_now e = db_now e * 1000"

record 'b request =
  req_id :: string
  req_headers :: "string \<Rightarrow> string option"
  req_query :: "string \<Rightarrow> string option"
  req_body :: "'b option"

datatype 'a response = Failure nat string | Success nat 'a

fun status :: "'a response \<Rightarrow> nat" where
  "status (Failure n _) = n"
| "status (Success n _) = n"

abbreviation internal_error :: "'a response" where
  "internal_error \<equiv> Failure 500 ''Internal server error''"

text \<open>JavaScript's \<^verbatim>\<open>x || d\<close> on a nullable string: null and the empty string are falsy.\<close>

definition truthy :: "string option \<Rightarrow> bool" where
  "truthy s = (case s of None \<Rightarrow> False | Some t \<Rightarrow> t \<noteq> [])"

definition or_else :: "string option \<Rightarrow> string \<Rightarrow> string" where
  "or_else s d = (case s of None \<Rightarrow> d | Some t \<Rightarrow> if t = [] then d else t)"

definition or_null :: "string option \<Rightarrow> string option" where
  "or_null s = (if truthy s then s else None)"

subsection \<open>Numbers\<close>

text \<open>
  A JavaScript number is a double. The handlers only hold integers and quotients of two
  integers, so a number is kept as the \<open>int\<close> it denotes and a quotient as a pair
  \<open>(m, e)\<close> that stands for \<open>m * 2 ^ e\<close>, with \<open>m\<close> the quotient rounded to 53 bits,
  ties to even. \<open>to_double n\<close> is the double nearest to the integer \<open>n\<close>; the magnitude
  \<open>2 ^ 1024\<close> stands for Infinity. \<open>double_quotient n d\<close> is \<^verbatim>\<open>n / d\<close> for
  positive doubles \<open>n\<close> and \<open>d\<close>, \<open>double_floor\<close> and \<open>double_ceiling\<close> are
  \<^verbatim>\<open>Math.floor\<close> and \<^verbatim>\<open>Math.ceil\<close> of such a quotient.
\<close>

definition round_half_even :: "int \<Rightarrow> int \<Rightarrow> int" where
  "round_half_even n d =
    (let q = n div d; r = n mod d
     in if d < 2 * r \<or> (2 * r = d \<and> odd q) then q + 1 else q)"

definition scale :: "int \<Rightarrow> int \<Rightarrow> int \<Rightarrow> int \<times> int" where
  "scale n d e = (if e \<le> 0 then (n * 2 ^ nat (- e), d) else (n, d * 2 ^ nat e))"

definition floor_log2 :: "int \<Rightarrow> int \<Rightarrow> int" where
  "floor_log2 n d =
    (let s = bitlen n - bitlen d
     in case scale n d s of (a, b) \<Rightarrow> if b \<le> a then s else s - 1)"

definition double_quotient :: "int \<Rightarrow> int \<Rightarrow> int \<times> int" where
  "double_quotient n d =
    (if n = 0 then (0, 0)
     else let e = floor_log2 n d - 52
          in case scale n d e of (a, b) \<Rightarrow> (round_half_even a b, e))"

definition double_floor :: "int \<times> int \<Rightarrow> int" where
  "double_floor x = (case x of (m, e) \<Rightarrow> if 0 \<le> e then m * 2 ^ nat e else m div 2 ^ nat (- e))"

definition double_ceiling :: "int \<times> int \<Rightarrow> int" where
  "double_ceiling x =
    (case x of (m, e) \<Rightarrow> if 0 \<le> e then m * 2 ^ nat e else - ((- m) div 2 ^ nat (- e)))"

definition to_double :: "int \<Rightarrow> int" where
  "to_double n =
    (let m = double_floor (double_quotient \<bar>n\<bar> 1)
     in sgn n * (if 2 ^ 1024 \<le> m then 2 ^ 1024 else m))"

text \<open>
  The client library of the store refuses to bind a number that is not finite, and the store
  refuses a \<^verbatim>\<open>LIMIT\<close> or \<^verbatim>\<open>OFFSET\<close> that is no 64-bit integer; either way
  the query throws.
\<close>

definition finite_number :: "int \<Rightarrow> bool" where
  "finite_number n = (\<bar>n\<bar> < 2 ^ 1024)"

definition int64 :: "int \<Rightarrow> bool" where
  "int64 n = (- (2 ^ 63) \<le> n \<and> n < 2 ^ 63)"

subsection \<open>parseInt\<close>

text \<open>
  \<^verbatim>\<open>parseInt(s)\<close> skips leading white space, reads a sign, takes a \<^verbatim>\<open>0x\<close>
  prefix as radix 16 when no radix is given, and reads the longest prefix of digits;
  \<open>None\<close> is NaN. White space is the ASCII part of what JavaScript strips. The value is
  the number that the digits denote, rounded to a double.
\<close>

definition is_space :: "char \<Rightarrow> bool" where
  "is_space c = (c = CHR '' '' \<or> c = CHR 0x09 \<or> c = CHR 0x0A \<or> c = CHR 0x0B
     \<or> c = CHR 0x0C \<or> c = CHR 0x0D)"

fun index_of :: "char \<Rightarrow> string \<Rightarrow> nat option" where
  "index_of c [] = None"
| "index_of c (x # xs) = (if c = x then Some 0 else map_option Suc (index_of c xs))"

definition digit_of :: "char \<Rightarrow> nat option" where
  "digit_of c =
    (case index_of c ''0123456789abcdef'' of
       Some k \<Rightarrow> Some k
     | None \<Rightarrow> map_option (\<lambda>k. k + 10) (index_of c ''ABCDEF''))"

definition is_digit :: "nat \<Rightarrow> char \<Rightarrow> bool" where
  "is_digit radix c = (case digit_of c of None \<Rightarrow> False | Some d \<Rightarrow> d < radix)"

definition digits_value :: "nat \<Rightarrow> string \<Rightarrow> int option" where
  "digits_value radix s =
    (let ds = takeWhile (is_digit radix) s
     in if ds = [] then None
        else Some (to_double (fold (\<lambda>c acc. acc * int radix
               + (case digit_of c of None \<Rightarrow> 0 | Some d \<Rightarrow> int d)) ds 0)))"

definition unsigned_value :: "bool \<Rightarrow> string \<Rightarrow> int option" where
  "unsigned_value hex_prefix s =
    (case s of
       a # b # rest \<Rightarrow>
         if hex_prefix \<and> a = CHR ''0'' \<and> (b = CHR ''x'' \<or> b = CHR ''X'')
         then digits_value 16 rest else digits_value 10 s
     | _ \<Rightarrow> digits_value 10 s)"

definition signed_value :: "bool \<Rightarrow> string \<Rightarrow> int option" where
  "signed_value hex_prefix s =
    (case s of
       c # rest \<Rightarrow>
         if c = CHR ''-'' then map_option uminus (unsigned_value hex_prefix rest)
         else if c = CHR ''+'' then unsigned_value hex_prefix rest
         else unsigned_value hex_prefix s
     | [] \<Rightarrow> None)"

definition parseInt :: "string \<Rightarrow> int option" where
  "parseInt s = signed_value True (dropWhile is_space s)"

definition parseInt10 :: "string \<Rightarrow> int option" where
  "parseInt10 s = signed_value False (dropWhile is_space s)"

text \<open>\<^verbatim>\<open>n || d\<close> on the result of parseInt: NaN and 0 are falsy.\<close>

definition num_or :: "int option \<Rightarrow> int \<Rightarrow> int" where
  "num_or n d = (case n of None \<Rightarrow> d | Some k \<Rightarrow> if k = 0 then d else k)"

section \<open>Identity Verifier (src/lib/utils.ts)\<close>

definition verifyApiKey :: "db \<Rightarrow> int \<Rightarrow> string \<Rightarrow> website option" where
  "verifyApiKey d websiteId apiKey =
    (case find (\<lambda>w. w_id w = websiteId \<and> w_apiKey w = apiKey) (Websites d) of
       None \<Rightarrow> None
     | Some w \<Rightarrow> if \<not> w_isActive w then None else Some w)"

definition getClientInfo :: "(string \<Rightarrow> string option) \<Rightarrow> string \<times> string" where
  "getClientInfo hdr =
    (or_else (hdr ''x-forwarded-for'') (or_else (hdr ''x-real-ip'') ''unknown''),
     or_else (hdr ''user-agent'') ''unknown'')"

section \<open>Vote Ledger (POST and DELETE /api/feedback/{id}/vote)\<close>

record vote_body =
  vb_voteType :: string
  vb_voterEmail :: "string option"

record vote_data =
  vd_voteType :: vote_type
  vd_voterEmail :: "string option"

definition vote_type_of_text :: "string \<Rightarrow> vote_type option" where
  "vote_type_of_text s =
    (if s = ''up'' then Some Up else if s = ''down'' then Some Down else None)"

text \<open>
  \<^verbatim>\<open>voteSchema\<close>: \<^verbatim>\<open>voteType\<close> is one of the two enum strings,
  \<^verbatim>\<open>voterEmail\<close> is absent or passes the library's email check.
\<close>

definition voteSchema :: "env \<Rightarrow> vote_body \<Rightarrow> vote_data option" where
  "voteSchema e b =
    (case vote_type_of_text (vb_voteType b) of
       None \<Rightarrow> None
     | Some t \<Rightarrow>
        (case vb_voterEmail b of
           None \<Rightarrow> Some \<lparr>vd_voteType = t, vd_voterEmail = None\<rparr>
         | Some m \<Rightarrow>
             if is_email e m then Some \<lparr>vd_voteType = t, vd_voterEmail = Some m\<rparr>
             else None))"

text \<open>
  The conditions of the lookup of an existing vote: the feedback id, and the email when one
  is supplied, the caller's IP otherwise.
\<close>

definition voter_cond :: "int \<Rightarrow> string option \<Rightarrow> string \<Rightarrow> vote \<Rightarrow> bool" where
  "voter_cond feedbackId email ip v =
    (v_feedbackId v = feedbackId \<and>
     (if truthy email then v_voterEmail v = email else v_voterIp v = ip))"

text \<open>
  The insert into \<^verbatim>\<open>FeedbackVotes\<close> is refused by the two unique indexes of the
  table, on (feedbackId, voterIp) and on (feedbackId, voterEmail); rows whose email is NULL
  never collide on the second.
\<close>

definition vote_conflict :: "vote \<Rightarrow> vote list \<Rightarrow> bool" where
  "vote_conflict n vs =
    (\<exists>v \<in> set vs. v_feedbackId v = v_feedbackId n \<and>
        (v_voterIp v = v_voterIp n \<or>
         (v_voterEmail n \<noteq> None \<and> v_voterEmail v = v_voterEmail n)))"

definition insert_vote ::
  "int \<Rightarrow> int \<Rightarrow> vote_type \<Rightarrow> string option \<Rightarrow> string \<Rightarrow> vote list \<Rightarrow> vote list option" where
  "insert_vote t feedbackId voteType email ip vs =
    (let n = \<lparr>v_id = next_id (map v_id vs), v_feedbackId = feedbackId, v_voterEmail = email,
               v_voterIp = ip, v_voteType = voteType, v_createdAt = t\<rparr>
     in if vote_conflict n vs then None else Some (vs @ [n]))"

definition update_vote_type :: "int \<Rightarrow> vote_type \<Rightarrow> vote list \<Rightarrow> vote list" where
  "update_vote_type vid t vs =
    map (\<lambda>v. if v_id v = vid then v\<lparr>v_voteType := t\<rparr> else v) vs"

definition delete_vote :: "int \<Rightarrow> vote list \<Rightarrow> vote list" where
  "delete_vote vid vs = filter (\<lambda>v. v_id v \<noteq> vid) vs"

definition update_feedback :: "int \<Rightarrow> (feedback \<Rightarrow> feedback) \<Rightarrow> feedback list \<Rightarrow> feedback list" where
  "update_feedback feedbackId g fs = map (\<lambda>f. if f_id f = feedbackId then g f else f) fs"

text \<open>The closing re-read of the counters and the 200 envelope.\<close>

definition vote_result :: "env \<Rightarrow> int \<Rightarrow> db \<Rightarrow> (int \<times> int) response \<times> db" where
  "vote_result e feedbackId d =
    (if ReadCounters \<in> faults e then (internal_error, d)
     else case find (\<lambda>f. f_id f = feedbackId) (Feedback d) of
            None \<Rightarrow> (Success 200 (0, 0), d)
          | Some u \<Rightarrow> (Success 200 (f_upvotes u, f_downvotes u), d))"

text \<open>
  The checks of both handlers that come before the lookup of the vote: the id of the path,
  the body (POST only), the API key, the feedback row and its website.
\<close>

definition load_feedback ::
  "env \<Rightarrow> 'b request \<Rightarrow> int \<Rightarrow> db \<Rightarrow> (int \<times> int) response + feedback" where
  "load_feedback e r feedbackId d =
    (if \<not> truthy (req_headers r ''x-api-key'') then Inl (Failure 401 ''API key required'')
     else if ReadFeedback \<in> faults e \<or> \<not> finite_number feedbackId then Inl internal_error
     else case find (\<lambda>f. f_id f = feedbackId) (Feedback d) of
            None \<Rightarrow> Inl (Failure 404 ''Feedback not found'')
          | Some fb \<Rightarrow>
              if ReadWebsite \<in> faults e then Inl internal_error
              else case verifyApiKey d (f_websiteId fb) (or_else (req_headers r ''x-api-key'') []) of
                     None \<Rightarrow> Inl (Failure 403 ''Invalid API key'')
                   | Some w \<Rightarrow> Inr fb)"

text \<open>Lines 85 to 173 of the POST handler: lookup, vote-row write, counter write, re-read.\<close>

definition castVote ::
  "env \<Rightarrow> int \<Rightarrow> vote_data \<Rightarrow> feedback \<Rightarrow> string \<Rightarrow> db \<Rightarrow> (int \<times> int) response \<times> db" where
  "castVote e feedbackId voteData fb ipAddress d =
    (if ReadVote \<in> faults e then (internal_error, d)
     else case find (voter_cond feedbackId (vd_voterEmail voteData) ipAddress) (FeedbackVotes d) of
       Some existingVote \<Rightarrow>
         if v_voteType existingVote \<noteq> vd_voteType voteData then
           (if WriteVote \<in> faults e then (internal_error, d)
            else
              let d1 = d\<lparr>FeedbackVotes :=
                          update_vote_type (v_id existingVote) (vd_voteType voteData) (FeedbackVotes d)\<rparr>;
                  upvoteChange = (if vd_voteType voteData = Up then 1 else - 1);
                  downvoteChange = (if vd_voteType voteData = Down then 1 else - 1)
              in if WriteCounters \<in> faults e then (internal_error, d1)
                 else vote_result e feedbackId
                        (d1\<lparr>Feedback := update_feedback feedbackId
                               (\<lambda>f. f\<lparr>f_upvotes := f_upvotes fb + upvoteChange,
                                      f_downvotes := f_downvotes fb + downvoteChange,
                                      f_updatedAt := now e\<rparr>) (Feedback d1)\<rparr>))
         else vote_result e feedbackId d
     | None \<Rightarrow>
         if WriteVote \<in> faults e then (internal_error, d)
         else case insert_vote (stored_now e) feedbackId (vd_voteType voteData)
                     (or_null (vd_voterEmail voteData)) ipAddress (FeedbackVotes d) of
                None \<Rightarrow> (internal_error, d)
              | Some vs \<Rightarrow>
                  let d1 = d\<lparr>FeedbackVotes := vs\<rparr>
                  in if WriteCounters \<in> faults e then (internal_error, d1)
                     else if vd_voteType voteData = Up then
                       vote_result e feedbackId
                         (d1\<lparr>Feedback := update_feedback feedbackId
                               (\<lambda>f. f\<lparr>f_upvotes := f_upvotes fb + 1, f_updatedAt := now e\<rparr>)
                               (Feedback d1)\<rparr>)
                     else
                       vote_result e feedbackId
                         (d1\<lparr>Feedback := update_feedback feedbackId
                               (\<lambda>f. f\<lparr>f_downvotes := f_downvotes fb + 1, f_updatedAt := now e\<rparr>)
                               (Feedback d1)\<rparr>))"

definition POST_vote :: "env \<Rightarrow> vote_body request \<Rightarrow> db \<Rightarrow> (int \<times> int) response \<times> db" where
  "POST_vote e r d =
    (let feedbackId = num_or (parseInt (req_id r)) 0
     in if feedbackId = 0 then (Failure 400 ''Invalid feedback ID'', d)
        else case req_body r of
          None \<Rightarrow> (internal_error, d)
        | Some body \<Rightarrow>
           (case voteSchema e body of
              None \<Rightarrow> (Failure 400 ''Invalid request data'', d)
            | Some voteData \<Rightarrow>
               (case load_feedback e r feedbackId d of
                  Inl resp \<Rightarrow> (resp, d)
                | Inr fb \<Rightarrow>
                    castVote e feedbackId voteData fb (fst (getClientInfo (req_headers r))) d)))"

text \<open>Lines 228 to 294 of the DELETE handler.\<close>

definition removeVote ::
  "env \<Rightarrow> int \<Rightarrow> string option \<Rightarrow> feedback \<Rightarrow> string \<Rightarrow> db \<Rightarrow> (int \<times> int) response \<times> db" where
  "removeVote e feedbackId email fb ipAddress d =
    (if ReadVote \<in> faults e then (internal_error, d)
     else case find (voter_cond feedbackId email ipAddress) (FeedbackVotes d) of
       None \<Rightarrow> (Failure 404 ''Vote not found'', d)
     | Some existingVote \<Rightarrow>
         if WriteVote \<in> faults e then (internal_error, d)
         else
           let d1 = d\<lparr>FeedbackVotes := delete_vote (v_id existingVote) (FeedbackVotes d)\<rparr>
           in if WriteCounters \<in> faults e then (internal_error, d1)
              else if v_voteType existingVote = Up then
                vote_result e feedbackId
                  (d1\<lparr>Feedback := update_feedback feedbackId
                        (\<lambda>f. f\<lparr>f_upvotes := f_upvotes fb - 1, f_updatedAt := now e\<rparr>)
                        (Feedback d1)\<rparr>)
              else
                vote_result e feedbackId
                  (d1\<lparr>Feedback := update_feedback feedbackId
                        (\<lambda>f. f\<lparr>f_downvotes := f_downvotes fb - 1, f_updatedAt := now e\<rparr>)
                        (Feedback d1)\<rparr>))"

definition DELETE_vote :: "env \<Rightarrow> vote_body request \<Rightarrow> db \<Rightarrow> (int \<times> int) response \<times> db" where
  "DELETE_vote e r d =
    (let feedbackId = num_or (parseInt (req_id r)) 0
     in if feedbackId = 0 then (Failure 400 ''Invalid feedback ID'', d)
        else case load_feedback e r feedbackId d of
               Inl resp \<Rightarrow> (resp, d)
             | Inr fb \<Rightarrow>
                 removeVote e feedbackId (req_headers r ''x-voter-email'') fb
                   (fst (getClientInfo (req_headers r))) d)"

section \<open>The counter-ledger invariant\<close>

definition count_votes :: "int \<Rightarrow> vote_type \<Rightarrow> vote list \<Rightarrow> nat" where
  "count_votes feedbackId t vs =
    length (filter (\<lambda>v. v_feedbackId v = feedbackId \<and> v_voteType v = t) vs)"

definition ledger_consistent :: "db \<Rightarrow> bool" where
  "ledger_consistent d \<longleftrightarrow>
    (\<forall>f \<in> set (Feedback d).
       f_upvotes f = int (count_votes (f_id f) Up (FeedbackVotes d)) \<and>
       f_downvotes f = int (count_votes (f_id f) Down (FeedbackVotes d)))"

definition vote_ids_unique :: "db \<Rightarrow> bool" where
  "vote_ids_unique d \<longleftrightarrow> distinct (map v_id (FeedbackVotes d))"

text \<open>A sequence of vote operations, each with its own environment; it is completed when
  no operation ended in the 500 envelope.\<close>

datatype vote_op = Cast "vote_body request" | Remove "vote_body request"

fun apply_op :: "env \<Rightarrow> vote_op \<Rightarrow> db \<Rightarrow> (int \<times> int) response \<times> db" where
  "apply_op e (Cast r) d = POST_vote e r d"
| "apply_op e (Remove r) d = DELETE_vote e r d"

fun completed_run :: "(env \<times> vote_op) list \<Rightarrow> db \<Rightarrow> db option" where
  "completed_run [] d = Some d"
| "completed_run ((e, op) # rest) d =
    (case apply_op e op d of
       (resp, d') \<Rightarrow> if status resp = 500 then None else completed_run rest d')"

text \<open>The two unique indexes of \<^verbatim>\<open>FeedbackVotes\<close>, and the rows of the table that
  belong to the item and voter of a vote request.\<close>

definition votes_unique :: "vote list \<Rightarrow> bool" where
  "votes_unique vs \<longleftrightarrow>
     distinct (map (\<lambda>v. (v_feedbackId v, v_voterIp v)) vs) \<and>
     distinct (map (\<lambda>v. (v_feedbackId v, v_voterEmail v))
                 (filter (\<lambda>v. v_voterEmail v \<noteq> None) vs))"

definition voter_rows :: "vote_body request \<Rightarrow> vote list \<Rightarrow> vote list" where
  "voter_rows r vs =
     filter (voter_cond (num_or (parseInt (req_id r)) 0)
               (case req_body r of None \<Rightarrow> None | Some b \<Rightarrow> vb_voterEmail b)
               (fst (getClientInfo (req_headers r)))) vs"

section \<open>Feedback Submission Handler (POST /api/feedback)\<close>

record submission_body =
  sb_websiteId :: int
  sb_categoryId :: "int option"
  sb_type :: string
  sb_title :: string
  sb_description :: string
  sb_email :: "string option"
  sb_name :: "string option"
  sb_url :: "string option"
  sb_metadata :: "string option"

record submission =
  s_websiteId :: int
  s_categoryId :: "int option"
  s_type :: fb_type
  s_title :: string
  s_description :: string
  s_email :: "string option"
  s_name :: "string option"
  s_url :: "string option"
  s_metadata :: "string option"

fun fb_type_text :: "fb_type \<Rightarrow> string" where
  "fb_type_text Bug = ''bug''"
| "fb_type_text Feature = ''feature''"
| "fb_type_text Improvement = ''improvement''"
| "fb_type_text Question = ''question''"
| "fb_type_text Compliment = ''compliment''"
| "fb_type_text Complaint = ''complaint''"
| "fb_type_text Other = ''other''"

fun fb_status_text :: "fb_status \<Rightarrow> string" where
  "fb_status_text New = ''new''"
| "fb_status_text InReview = ''in_review''"
| "fb_status_text InProgress = ''in_progress''"
| "fb_status_text Resolved = ''resolved''"
| "fb_status_text Closed = ''closed''"
| "fb_status_text Spam = ''spam''"

fun priority_text :: "priority \<Rightarrow> string" where
  "priority_text Low = ''low''"
| "priority_text Medium = ''medium''"
| "priority_text High = ''high''"
| "priority_text Urgent = ''urgent''"

text \<open>\<^verbatim>\<open>z.enum([...])\<close>: the value whose text is the given string, if there is one.\<close>

definition fb_type_of_text :: "string \<Rightarrow> fb_type option" where
  "fb_type_of_text s =
    find (\<lambda>t. fb_type_text t = s)
      [Bug, Feature, Improvement, Question, Compliment, Complaint, Other]"

definition fb_status_of_text :: "string \<Rightarrow> fb_status option" where
  "fb_status_of_text s =
    find (\<lambda>t. fb_status_text t = s) [New, InReview, InProgress, Resolved, Closed, Spam]"

definition opt_ok :: "('a \<Rightarrow> bool) \<Rightarrow> 'a option \<Rightarrow> bool" where
  "opt_ok P x = (case x of None \<Rightarrow> True | Some v \<Rightarrow> P v)"

text \<open>
  \<^verbatim>\<open>feedbackSubmissionSchema\<close>. Numbers of the body are taken to be integers and
  \<^verbatim>\<open>metadata\<close> to be an object whenever it is present.
\<close>

definition feedbackSubmissionSchema :: "env \<Rightarrow> submission_body \<Rightarrow> submission option" where
  "feedbackSubmissionSchema e b =
    (case fb_type_of_text (sb_type b) of
       None \<Rightarrow> None
     | Some t \<Rightarrow>
         if 0 < sb_websiteId b \<and> opt_ok (\<lambda>c. 0 < c) (sb_categoryId b)
            \<and> 1 \<le> length (sb_title b) \<and> length (sb_title b) \<le> 200
            \<and> 1 \<le> length (sb_description b) \<and> length (sb_description b) \<le> 5000
            \<and> opt_ok (is_email e) (sb_email b)
            \<and> opt_ok (\<lambda>n. 1 \<le> length n \<and> length n \<le> 100) (sb_name b)
            \<and> opt_ok (is_url e) (sb_url b)
         then Some \<lparr>s_websiteId = sb_websiteId b, s_categoryId = sb_categoryId b, s_type = t,
                    s_title = sb_title b, s_description = sb_description b,
                    s_email = sb_email b, s_name = sb_name b, s_url = sb_url b,
                    s_metadata = sb_metadata b\<rparr>
         else None)"

type_synonym submitted = "int \<times> fb_status \<times> int"

text \<open>Lines 18 to 53: body, API key, website.\<close>

definition admit_submission ::
  "env \<Rightarrow> submission_body request \<Rightarrow> db \<Rightarrow> submitted response + (submission \<times> website)" where
  "admit_submission e r d =
    (case req_body r of
       None \<Rightarrow> Inl internal_error
     | Some body \<Rightarrow>
        (case feedbackSubmissionSchema e body of
           None \<Rightarrow> Inl (Failure 400 ''Invalid request data'')
         | Some data \<Rightarrow>
             if \<not> truthy (req_headers r ''x-api-key'') then Inl (Failure 401 ''API key required'')
             else if ReadWebsite \<in> faults e then Inl internal_error
             else case verifyApiKey d (s_websiteId data) (or_else (req_headers r ''x-api-key'') []) of
                    None \<Rightarrow> Inl (Failure 403 ''Invalid API key or inactive website'')
                  | Some w \<Rightarrow> Inr (data, w)))"

text \<open>
  What the store holds in a date column filled by \<^verbatim>\<open>default: NOW\<close>: the text
  \<^verbatim>\<open>YYYY-MM-DD HH:MM:SS\<close> of the instant, in UTC (years 0 to 9999). The days since the
  epoch are turned into a civil date by the usual era arithmetic of the proleptic Gregorian
  calendar.
\<close>

definition digit_char :: "int \<Rightarrow> char" where
  "digit_char k = ''0123456789'' ! nat k"

definition two_digits :: "int \<Rightarrow> string" where
  "two_digits n = [digit_char (n div 10 mod 10), digit_char (n mod 10)]"

definition civil_from_days :: "int \<Rightarrow> int \<times> int \<times> int" where
  "civil_from_days days =
    (let z = days + 719468;
         era = z div 146097;
         doe = z mod 146097;
         yoe = (doe - doe div 1460 + doe div 36524 - doe div 146096) div 365;
         doy = doe - (365 * yoe + yoe div 4 - yoe div 100);
         mp = (5 * doy + 2) div 153;
         m = (if mp < 10 then mp + 3 else mp - 9)
     in (yoe + era * 400 + (if m \<le> 2 then 1 else 0), m, doy - (153 * mp + 2) div 5 + 1))"

definition datetime_text :: "int \<Rightarrow> string" where
  "datetime_text t =
    (let s = t div 1000; sod = s mod 86400
     in case civil_from_days (s div 86400) of (y, m, d) \<Rightarrow>
          two_digits (y div 100) @ two_digits y @ ''-'' @ two_digits m @ ''-'' @ two_digits d
          @ '' '' @ two_digits (sod div 3600) @ '':'' @ two_digits (sod div 60 mod 60) @ '':'' @
          two_digits (sod mod 60))"

text \<open>
  The text of a number bound as a REAL when the store compares it with a text column: the
  digits, then \<^verbatim>\<open>.0\<close>. This is the form of a magnitude below 10^15, which covers the
  milliseconds of every date up to the year 33658; beyond it the store prints an exponent.
\<close>

function decimal :: "int \<Rightarrow> string" where
  "decimal n = (if n < 10 then [digit_char n] else decimal (n div 10) @ [digit_char (n mod 10)])"
  by pat_completeness auto
termination by (relation "measure nat") auto

declare decimal.simps [simp del]

definition real_text :: "int \<Rightarrow> string" where
  "real_text n = (if n < 0 then ''-'' else []) @ decimal \<bar>n\<bar> @ ''.0''"

text \<open>
  The count query of the rate limit, lines 65 to 75: rows of the website from the same IP whose
  \<^verbatim>\<open>createdAt\<close> is greater than
  \<^verbatim>\<open>windowStart = new Date(Date.now() - windowMinutes * 60 * 1000)\<close>. The comparison is
  written as a raw \<^verbatim>\<open>sql\<close> template, so \<^verbatim>\<open>windowStart\<close> does not pass
  through the encoder of the date column: the client library binds the \<^verbatim>\<open>Date\<close> as
  its number of milliseconds. The column has text affinity, so the store turns that number
  into text and compares the two texts byte by byte.
\<close>

definition recentSubmissions :: "env \<Rightarrow> rate_limit \<Rightarrow> int \<Rightarrow> string \<Rightarrow> db \<Rightarrow> int" where
  "recentSubmissions e rl websiteId ipAddress d =
    (let windowStart = now e - windowMinutes rl * 60 * 1000
     in int (length (filter (\<lambda>f. f_websiteId f = websiteId \<and> f_ipAddress f = Some ipAddress
                                  \<and> real_text windowStart < datetime_text (f_createdAt f))
                       (Feedback d))))"

text \<open>
  The insert into \<^verbatim>\<open>Feedback\<close>; the store refuses a category id that references no
  row of \<^verbatim>\<open>FeedbackCategories\<close>. The website row referenced is the one just verified.
  The insert names neither \<^verbatim>\<open>createdAt\<close> nor \<^verbatim>\<open>updatedAt\<close>: both are filled
  by the store, from its own clock.
\<close>

definition new_feedback :: "env \<Rightarrow> submission \<Rightarrow> string \<Rightarrow> string \<Rightarrow> db \<Rightarrow> feedback" where
  "new_feedback e data ipAddress userAgent d =
    \<lparr>f_id = next_id (map f_id (Feedback d)), f_websiteId = s_websiteId data,
     f_categoryId = (case s_categoryId data of None \<Rightarrow> None
                     | Some c \<Rightarrow> if c = 0 then None else Some c),
     f_type = s_type data, f_status = New, f_priority = Medium,
     f_title = s_title data, f_description = s_description data,
     f_email = or_null (s_email data), f_name = or_null (s_name data),
     f_userAgent = Some userAgent, f_url = or_null (s_url data),
     f_ipAddress = Some ipAddress, f_metadata = s_metadata data,
     f_isPublic = False, f_upvotes = 0, f_downvotes = 0,
     f_createdAt = stored_now e, f_updatedAt = stored_now e\<rparr>"

definition category_exists :: "db \<Rightarrow> int option \<Rightarrow> bool" where
  "category_exists d c = (case c of None \<Rightarrow> True | Some k \<Rightarrow> k \<in> c_id ` set (FeedbackCategories d))"

definition new_event :: "env \<Rightarrow> submission \<Rightarrow> feedback \<Rightarrow> string \<Rightarrow> string \<Rightarrow> db \<Rightarrow> analytics_event" where
  "new_event e data row ipAddress userAgent d =
    \<lparr>a_id = next_id (map a_id (AnalyticsEvents d)), a_websiteId = s_websiteId data,
     a_eventType = ''feedback_submitted'',
     a_eventData = Some \<lparr>ed_feedbackId = f_id row, ed_type = s_type data,
                          ed_hasEmail = truthy (s_email data),
                          ed_hasCategory = (case s_categoryId data of None \<Rightarrow> False
                                            | Some c \<Rightarrow> c \<noteq> 0)\<rparr>,
     a_userAgent = Some userAgent, a_ipAddress = Some ipAddress, a_createdAt = stored_now e\<rparr>"

text \<open>Lines 90 to 140: the insert, the analytics event, the 201 envelope.\<close>

definition store_submission ::
  "env \<Rightarrow> submission \<Rightarrow> string \<Rightarrow> string \<Rightarrow> db \<Rightarrow> submitted response \<times> db" where
  "store_submission e data ipAddress userAgent d =
    (let row = new_feedback e data ipAddress userAgent d
     in if InsertFeedback \<in> faults e \<or> \<not> category_exists d (f_categoryId row)
        then (internal_error, d)
        else
          let d1 = d\<lparr>Feedback := Feedback d @ [row]\<rparr>
          in if InsertAnalytics \<in> faults e then (internal_error, d1)
             else (Success 201 (f_id row, f_status row, f_createdAt row),
                   d1\<lparr>AnalyticsEvents :=
                        AnalyticsEvents d1 @ [new_event e data row ipAddress userAgent d1]\<rparr>))"

text \<open>Lines 55 to 88: client info, settings, the rate limit.\<close>

definition submit :: "env \<Rightarrow> submission \<Rightarrow> website \<Rightarrow> 'b request \<Rightarrow> db \<Rightarrow> submitted response \<times> db" where
  "submit e data w r d =
    (let ipAddress = fst (getClientInfo (req_headers r));
         userAgent = snd (getClientInfo (req_headers r))
     in case (case w_settings w of None \<Rightarrow> None | Some s \<Rightarrow> rateLimit s) of
          None \<Rightarrow> store_submission e data ipAddress userAgent d
        | Some rl \<Rightarrow>
            if CountRecent \<in> faults e then (internal_error, d)
            else if maxSubmissions rl \<le> recentSubmissions e rl (s_websiteId data) ipAddress d
              then (Failure 429 ''Rate limit exceeded. Please try again later.'', d)
            else store_submission e data ipAddress userAgent d)"

definition POST_feedback :: "env \<Rightarrow> submission_body request \<Rightarrow> db \<Rightarrow> submitted response \<times> db" where
  "POST_feedback e r d =
    (case admit_submission e r d of
       Inl resp \<Rightarrow> (resp, d)
     | Inr (data, w) \<Rightarrow> submit e data w r d)"

text \<open>
  \<^verbatim>\<open>logAnalyticsEvent\<close> of src/lib/utils.ts, the helper for analytics inserts: it
  catches a failing insert and only logs it.
\<close>

definition logAnalyticsEvent ::
  "env \<Rightarrow> int \<Rightarrow> string \<Rightarrow> event_data option \<Rightarrow> 'b request \<Rightarrow> db \<Rightarrow> db" where
  "logAnalyticsEvent e websiteId eventType eventData r d =
    (let ipAddress = fst (getClientInfo (req_headers r));
         userAgent = snd (getClientInfo (req_headers r))
     in if InsertAnalytics \<in> faults e then d
        else d\<lparr>AnalyticsEvents := AnalyticsEvents d @
               [\<lparr>a_id = next_id (map a_id (AnalyticsEvents d)), a_websiteId = websiteId,
                 a_eventType = eventType, a_eventData = eventData,
                 a_userAgent = Some userAgent, a_ipAddress = Some ipAddress,
                 a_createdAt = stored_now e\<rparr>]\<rparr>)"

section \<open>Feedback Query Planner (GET /api/feedback)\<close>

datatype sort_key = Newest | Oldest | ByPriority | ByUpvotes

definition sort_of_text :: "string \<Rightarrow> sort_key option" where
  "sort_of_text s =
    (if s = ''newest'' then Some Newest else if s = ''oldest'' then Some Oldest
     else if s = ''priority'' then Some ByPriority else if s = ''upvotes'' then Some ByUpvotes
     else None)"

text \<open>The object handed to \<^verbatim>\<open>feedbackQuerySchema.safeParse\<close>, and what it parses to.\<close>

record raw_query =
  rq_status :: "string option"
  rq_type :: "string option"
  rq_category :: "string option"
  rq_limit :: string
  rq_offset :: string
  rq_sort :: string
  rq_public :: "string option"

record feedback_query =
  q_status :: "fb_status option"
  q_type :: "fb_type option"
  q_category :: "string option"
  q_limit :: int
  q_offset :: int
  q_sort :: sort_key
  q_public :: "bool option"

definition raw_query_of :: "(string \<Rightarrow> string option) \<Rightarrow> raw_query" where
  "raw_query_of searchParams =
    \<lparr>rq_status = or_null (searchParams ''status''),
     rq_type = or_null (searchParams ''type''),
     rq_category = or_null (searchParams ''category''),
     rq_limit = or_else (searchParams ''limit'') ''10'',
     rq_offset = or_else (searchParams ''offset'') ''0'',
     rq_sort = or_else (searchParams ''sort'') ''newest'',
     rq_public = or_null (searchParams ''public'')\<rparr>"

text \<open>An optional enum field: absent is accepted, a string outside the enum is refused.\<close>

definition opt_enum :: "(string \<Rightarrow> 'a option) \<Rightarrow> string option \<Rightarrow> 'a option option" where
  "opt_enum parse x =
    (case x of None \<Rightarrow> Some None
     | Some s \<Rightarrow> (case parse s of None \<Rightarrow> None | Some v \<Rightarrow> Some (Some v)))"

definition feedbackQuerySchema :: "raw_query \<Rightarrow> feedback_query option" where
  "feedbackQuerySchema raw =
    (case opt_enum fb_status_of_text (rq_status raw) of
       None \<Rightarrow> None
     | Some st \<Rightarrow>
    (case opt_enum fb_type_of_text (rq_type raw) of
       None \<Rightarrow> None
     | Some ty \<Rightarrow>
    (case sort_of_text (rq_sort raw) of
       None \<Rightarrow> None
     | Some so \<Rightarrow>
        let limit = num_or (parseInt (rq_limit raw)) 10;
            offset = num_or (parseInt (rq_offset raw)) 0
        in if limit < 1 \<or> 100 < limit \<or> offset < 0 then None
           else Some \<lparr>q_status = st, q_type = ty, q_category = rq_category raw,
                      q_limit = limit, q_offset = offset, q_sort = so,
                      q_public = map_option (\<lambda>v. v = ''true'') (rq_public raw)\<rparr>)))"

text \<open>The entries of the \<^verbatim>\<open>conditions\<close> array, joined by \<^verbatim>\<open>and(...)\<close>.\<close>

datatype condition =
    EqWebsiteId int | EqStatus fb_status | EqType fb_type | EqTypeText string
  | EqIsPublic bool | EqCategoryId int

fun holds :: "condition \<Rightarrow> feedback \<Rightarrow> bool" where
  "holds (EqWebsiteId i) f = (f_websiteId f = i)"
| "holds (EqStatus s) f = (f_status f = s)"
| "holds (EqType t) f = (f_type f = t)"
| "holds (EqTypeText s) f = (fb_type_text (f_type f) = s)"
| "holds (EqIsPublic b) f = (f_isPublic f = b)"
| "holds (EqCategoryId c) f = (f_categoryId f = Some c)"

definition all_hold :: "condition list \<Rightarrow> feedback \<Rightarrow> bool" where
  "all_hold cs f = list_all (\<lambda>c. holds c f) cs"

text \<open>
  \<^verbatim>\<open>ORDER BY\<close>: \<^verbatim>\<open>priority\<close> is a text column, so it is ordered as text, byte by
  byte. Rows that compare equal keep their table order.
\<close>

datatype column = CreatedAt | Priority | Upvotes

datatype order_by = Asc column | Desc column

fun column_le :: "column \<Rightarrow> feedback \<Rightarrow> feedback \<Rightarrow> bool" where
  "column_le CreatedAt a b = (f_createdAt a \<le> f_createdAt b)"
| "column_le Priority a b = (priority_text (f_priority a) \<le> priority_text (f_priority b))"
| "column_le Upvotes a b = (f_upvotes a \<le> f_upvotes b)"

fun order_le :: "order_by \<Rightarrow> feedback \<Rightarrow> feedback \<Rightarrow> bool" where
  "order_le (Asc c) a b = column_le c a b"
| "order_le (Desc c) a b = column_le c b a"

fun insert_by :: "('a \<Rightarrow> 'a \<Rightarrow> bool) \<Rightarrow> 'a \<Rightarrow> 'a list \<Rightarrow> 'a list" where
  "insert_by le x [] = [x]"
| "insert_by le x (y # ys) = (if le x y then x # y # ys else y # insert_by le x ys)"

definition sort_by :: "('a \<Rightarrow> 'a \<Rightarrow> bool) \<Rightarrow> 'a list \<Rightarrow> 'a list" where
  "sort_by le xs = foldr (insert_by le) xs []"

text \<open>
  \<^verbatim>\<open>from(Feedback).leftJoin(FeedbackCategories, eq(categoryId, id))\<close>: every feedback
  row with each category row of that id, or once with no category.
\<close>

definition left_join :: "feedback list \<Rightarrow> category list \<Rightarrow> (feedback \<times> category option) list" where
  "left_join fs cs =
    concat (map (\<lambda>f. case filter (\<lambda>c. f_categoryId f = Some (c_id c)) cs of
                         [] \<Rightarrow> [(f, None)]
                       | ms \<Rightarrow> map (\<lambda>c. (f, Some c)) ms) fs)"

definition select_rows ::
  "condition list \<Rightarrow> order_by \<Rightarrow> int \<Rightarrow> int \<Rightarrow> db \<Rightarrow> (feedback \<times> category option) list" where
  "select_rows conds ob limit offset d =
    take (nat limit) (drop (nat offset)
      (sort_by (\<lambda>a b. order_le ob (fst a) (fst b))
         (filter (\<lambda>row. all_hold conds (fst row))
            (left_join (Feedback d) (FeedbackCategories d)))))"

record feedback_item =
  fi_id :: int
  fi_websiteId :: int
  fi_categoryId :: "int option"
  fi_type :: fb_type
  fi_status :: fb_status
  fi_priority :: priority
  fi_title :: string
  fi_description :: string
  fi_email :: "string option"
  fi_name :: "string option"
  fi_url :: "string option"
  fi_isPublic :: bool
  fi_upvotes :: int
  fi_downvotes :: int
  fi_createdAt :: int
  fi_updatedAt :: int
  fi_categoryName :: "string option"

definition to_item :: "feedback \<times> category option \<Rightarrow> feedback_item" where
  "to_item row =
    (case row of (f, c) \<Rightarrow>
      \<lparr>fi_id = f_id f, fi_websiteId = f_websiteId f, fi_categoryId = f_categoryId f,
       fi_type = f_type f, fi_status = f_status f, fi_priority = f_priority f,
       fi_title = f_title f, fi_description = f_description f, fi_email = f_email f,
       fi_name = f_name f, fi_url = f_url f, fi_isPublic = f_isPublic f,
       fi_upvotes = f_upvotes f, fi_downvotes = f_downvotes f,
       fi_createdAt = f_createdAt f, fi_updatedAt = f_updatedAt f,
       fi_categoryName = map_option c_name c\<rparr>)"

record pagination =
  pg_total :: int
  pg_page :: int
  pg_limit :: int
  pg_totalPages :: int

type_synonym listing = "feedback_item list \<times> pagination"

text \<open>Lines 210 to 232: the conditions, with the category slug resolved for this website.\<close>

definition resolve_category :: "db \<Rightarrow> int \<Rightarrow> string \<Rightarrow> category option" where
  "resolve_category d websiteId slug =
    find (\<lambda>c. c_websiteId c = websiteId \<and> c_slug c = slug) (FeedbackCategories d)"

definition conditions :: "int \<Rightarrow> feedback_query \<Rightarrow> db \<Rightarrow> condition list" where
  "conditions websiteId q d =
    [EqWebsiteId websiteId]
    @ (case q_status q of None \<Rightarrow> [] | Some s \<Rightarrow> [EqStatus s])
    @ (case q_type q of None \<Rightarrow> [] | Some t \<Rightarrow> [EqType t])
    @ (if q_public q = Some True then [EqIsPublic True] else [])
    @ (if truthy (q_category q)
       then (case resolve_category d websiteId (or_else (q_category q) []) of
               None \<Rightarrow> [] | Some c \<Rightarrow> [EqCategoryId (c_id c)])
       else [])"

definition orderBy :: "sort_key \<Rightarrow> order_by" where
  "orderBy s =
    (case s of Oldest \<Rightarrow> Asc CreatedAt | ByPriority \<Rightarrow> Desc Priority
     | ByUpvotes \<Rightarrow> Desc Upvotes | Newest \<Rightarrow> Desc CreatedAt)"

text \<open>Lines 210 to 305: conditions, order, the count query, the page, the page numbers.\<close>

definition list_feedback :: "env \<Rightarrow> int \<Rightarrow> feedback_query \<Rightarrow> db \<Rightarrow> listing response" where
  "list_feedback e websiteId q d =
    (if truthy (q_category q) \<and> ReadCategory \<in> faults e then internal_error
     else if CountTotal \<in> faults e then internal_error
     else
       let conds = conditions websiteId q d;
           total = int (length (filter (all_hold conds) (Feedback d)))
       in if ReadPage \<in> faults e \<or> \<not> int64 (q_offset q) then internal_error
          else
            let feedback = map to_item (select_rows conds (orderBy (q_sort q))
                                          (q_limit q) (q_offset q) d);
                totalPages = double_ceiling (double_quotient total (q_limit q));
                currentPage =
                  to_double (double_floor (double_quotient (q_offset q) (q_limit q)) + 1)
            in Success 200 (feedback,
                 \<lparr>pg_total = total, pg_page = currentPage, pg_limit = q_limit q,
                  pg_totalPages = totalPages\<rparr>))"

definition websiteId_of :: "'b request \<Rightarrow> int" where
  "websiteId_of r = num_or (parseInt10 (or_else (req_query r ''websiteId'') ''0'')) 0"

definition GET_feedback :: "env \<Rightarrow> 'b request \<Rightarrow> db \<Rightarrow> listing response" where
  "GET_feedback e r d =
    (let websiteId = websiteId_of r
     in if websiteId = 0 then Failure 400 ''Website ID required''
        else if \<not> truthy (req_headers r ''x-api-key'') then Failure 401 ''API key required''
        else if ReadWebsite \<in> faults e \<or> \<not> finite_number websiteId then internal_error
        else case verifyApiKey d websiteId (or_else (req_headers r ''x-api-key'') []) of
          None \<Rightarrow> Failure 403 ''Invalid API key or inactive website''
        | Some w \<Rightarrow>
           (case feedbackQuerySchema (raw_query_of (req_query r)) of
              None \<Rightarrow> Failure 400 ''Invalid query parameters''
            | Some q \<Rightarrow> list_feedback e websiteId q d))"

section \<open>getPublicFeedback (src/lib/utils.ts)\<close>

record public_options =
  po_limit :: "int option"
  po_offset :: "int option"
  po_type :: "string option"
  po_category :: "string option"
  po_sort :: "sort_key option"

text \<open>
  The \<^verbatim>\<open>switch (sort)\<close> of getPublicFeedback, as written, and the query; the rows are
  returned here before the projection to the selected columns.
\<close>

definition public_orderBy :: "sort_key \<Rightarrow> order_by" where
  "public_orderBy s =
    (case s of Oldest \<Rightarrow> Desc CreatedAt | ByUpvotes \<Rightarrow> Desc Upvotes | _ \<Rightarrow> Desc CreatedAt)"

definition getPublicFeedback :: "int \<Rightarrow> public_options \<Rightarrow> db \<Rightarrow> (feedback \<times> category option) list" where
  "getPublicFeedback websiteId options d =
    (let limit = (case po_limit options of None \<Rightarrow> 10 | Some n \<Rightarrow> n);
         offset = (case po_offset options of None \<Rightarrow> 0 | Some n \<Rightarrow> n);
         sort = (case po_sort options of None \<Rightarrow> Newest | Some s \<Rightarrow> s);
         conds = [EqWebsiteId websiteId, EqIsPublic True]
           @ (if truthy (po_type options) then [EqTypeText (or_else (po_type options) [])] else [])
           @ (if truthy (po_category options)
              then (case resolve_category d websiteId (or_else (po_category options) []) of
                      None \<Rightarrow> [] | Some c \<Rightarrow> [EqCategoryId (c_id c)])
              else [])
     in select_rows conds (public_orderBy sort) limit offset d)"

text \<open>
  The filter set of a list request as the specification words it: the rows of the website,
  with an exact match of the status and of the type when they are given, public rows only
  when the public flag is set, and the rows of the category when a slug is given and
  resolves to a category of the website (a slug that does not resolve filters nothing).
\<close>

definition matches_filters :: "int \<Rightarrow> feedback_query \<Rightarrow> db \<Rightarrow> feedback \<Rightarrow> bool" where
  "matches_filters websiteId q d f =
    (f_websiteId f = websiteId
     \<and> (case q_status q of None \<Rightarrow> True | Some s \<Rightarrow> f_status f = s)
     \<and> (case q_type q of None \<Rightarrow> True | Some t \<Rightarrow> f_type f = t)
     \<and> (case q_public q of Some True \<Rightarrow> f_isPublic f | _ \<Rightarrow> True)
     \<and> (case q_category q of
          None \<Rightarrow> True
        | Some slug \<Rightarrow>
            (case find (\<lambda>c. c_websiteId c = websiteId \<and> c_slug c = slug)
                    (FeedbackCategories d) of
               None \<Rightarrow> True
             | Some c \<Rightarrow> slug = [] \<or> f_categoryId f = Some (c_id c))))"

text \<open>The items of a listing response, and the position of a priority in the enum's declaration.\<close>

fun listed :: "listing response \<Rightarrow> feedback_item list" where
  "listed (Success n (items, pg)) = items"
| "listed (Failure n m) = []"

fun paging :: "listing response \<Rightarrow> pagination option" where
  "paging (Success n (items, pg)) = Some pg"
| "paging (Failure n m) = None"

fun priority_rank :: "priority \<Rightarrow> nat" where
  "priority_rank Low = 0"
| "priority_rank Medium = 1"
| "priority_rank High = 2"
| "priority_rank Urgent = 3"

section \<open>Concrete stores and requests\<close>

definition example_site :: website where
  "example_site = \<lparr>w_id = 1, w_name = ''Shop'', w_domain = ''shop.example'', w_apiKey = ''key-1'',
     w_isActive = True,
     w_settings = Some \<lparr>rateLimit = Some \<lparr>maxSubmissions = 3, windowMinutes = 60\<rparr>,
       allowedOrigins = [], moderationRequired = False, emailNotifications = True\<rparr>\<rparr>"

definition example_item :: "int \<Rightarrow> priority \<Rightarrow> int \<Rightarrow> int \<Rightarrow> int \<Rightarrow> feedback" where
  "example_item i p t u dn = \<lparr>f_id = i, f_websiteId = 1, f_categoryId = None, f_type = Bug,
     f_status = New, f_priority = p, f_title = ''t'', f_description = ''d'', f_email = None,
     f_name = None, f_userAgent = Some ''unknown'', f_url = None, f_ipAddress = Some ''10.0.0.1'',
     f_metadata = None, f_isPublic = False, f_upvotes = u, f_downvotes = dn,
     f_createdAt = t, f_updatedAt = t\<rparr>"

definition example_db :: db where
  "example_db = \<lparr>Websites = [example_site], FeedbackCategories = [],
     Feedback = [example_item 1 Medium 1000 0 0], FeedbackVotes = [], AnalyticsEvents = []\<rparr>"

definition example_env :: "db_call set \<Rightarrow> env" where
  "example_env fs = \<lparr>now = 5000, db_now = 5, faults = fs, is_email = (\<lambda>s. CHR ''@'' \<in> set s),
     is_url = (\<lambda>s. take 4 s = ''http'')\<rparr>"

definition vote_request :: "string \<Rightarrow> string \<Rightarrow> string option \<Rightarrow> vote_body request" where
  "vote_request ip t m = \<lparr>req_id = ''1'',
     req_headers = [''x-api-key'' \<mapsto> ''key-1'', ''x-forwarded-for'' \<mapsto> ip],
     req_query = Map.empty,
     req_body = Some \<lparr>vb_voteType = t, vb_voterEmail = m\<rparr>\<rparr>"

definition example_ops :: "(env \<times> vote_op) list" where
  "example_ops =
    [(example_env {}, Cast (vote_request ''10.0.0.1'' ''up'' (Some ''a@x.org''))),
     (example_env {}, Cast (vote_request ''10.0.0.1'' ''down'' (Some ''a@x.org''))),
     (example_env {}, Cast (vote_request ''10.0.0.2'' ''up'' None)),
     (example_env {}, Remove (vote_request ''10.0.0.2'' ''up'' None))]"


definition example_voted :: db where
  "example_voted = example_db\<lparr>
     Feedback := [(example_item 1 Medium 1000 0 1)\<lparr>f_updatedAt := 5000\<rparr>],
     FeedbackVotes := [\<lparr>v_id = 1, v_feedbackId = 1, v_voterEmail = Some ''a@x.org'',
        v_voterIp = ''10.0.0.1'', v_voteType = Down, v_createdAt = 5000\<rparr>]\<rparr>"

definition example_up :: db where
  "example_up = example_db\<lparr>
     Feedback := [(example_item 1 Medium 1000 1 0)\<lparr>f_updatedAt := 5000\<rparr>],
     FeedbackVotes := [\<lparr>v_id = 1, v_feedbackId = 1, v_voterEmail = Some ''a@x.org'',
        v_voterIp = ''10.0.0.1'', v_voteType = Up, v_createdAt = 5000\<rparr>]\<rparr>"

definition example_half_written :: db where
  "example_half_written = example_db\<lparr>
     FeedbackVotes := [\<lparr>v_id = 1, v_feedbackId = 1, v_voterEmail = Some ''a@x.org'',
        v_voterIp = ''10.0.0.1'', v_voteType = Up, v_createdAt = 5000\<rparr>]\<rparr>"

definition submission_request :: "string \<Rightarrow> submission_body request" where
  "submission_request ip = \<lparr>req_id = [],
     req_headers = [''x-api-key'' \<mapsto> ''key-1'', ''x-forwarded-for'' \<mapsto> ip],
     req_query = Map.empty,
     req_body = Some \<lparr>sb_websiteId = 1, sb_categoryId = None, sb_type = ''bug'',
       sb_title = ''t'', sb_description = ''d'', sb_email = None, sb_name = None,
       sb_url = None, sb_metadata = None\<rparr>\<rparr>"

definition example_rows :: "int \<Rightarrow> int \<Rightarrow> int \<Rightarrow> db" where
  "example_rows t1 t2 t3 = example_db\<lparr>Feedback :=
     [example_item 1 Medium t1 0 0, example_item 2 Medium t2 0 0, example_item 3 Medium t3 0 0]\<rparr>"

definition example_data :: submission where
  "example_data = \<lparr>s_websiteId = 1, s_categoryId = None, s_type = Bug,
       s_title = ''t'', s_description = ''d'', s_email = None, s_name = None,
       s_url = None, s_metadata = None\<rparr>"

definition list_request :: "(string \<times> string) list \<Rightarrow> unit request" where
  "list_request params = \<lparr>req_id = [], req_headers = [''x-api-key'' \<mapsto> ''key-1''],
     req_query = map_of params, req_body = None\<rparr>"

definition example_list_db :: db where
  "example_list_db = example_db\<lparr>Feedback :=
     [example_item 1 High 1000 2 0, example_item 2 Low 2000 5 0, example_item 3 Urgent 3000 1 0]\<rparr>"

definition example_many :: db where
  "example_many = example_db\<lparr>Feedback :=
     map (\<lambda>i. example_item i Medium (1000 * i) 0 0) [1..25]\<rparr>"

definition example_category :: category where
  "example_category = \<lparr>c_id = 7, c_websiteId = 1, c_name = ''Bugs'', c_slug = ''bugs'',
     c_color = None\<rparr>"

definition example_cat_db :: db where
  "example_cat_db = example_db\<lparr>FeedbackCategories := [example_category],
     Feedback := [(example_item 1 High 1000 2 0)\<lparr>f_categoryId := Some 7\<rparr>,
                  example_item 2 Low 2000 5 0]\<rparr>"

definition example_mixed :: db where
  "example_mixed = example_db\<lparr>Feedback :=
     map (\<lambda>i. example_item i Medium (1000 * i) 0 0) [1..25]
     @ [(example_item 26 Medium 26000 0 0)\<lparr>f_websiteId := 2\<rparr>,
        (example_item 27 Medium 27000 0 0)\<lparr>f_status := Closed\<rparr>,
        (example_item 28 Medium 28000 0 0)\<lparr>f_type := Feature\<rparr>]\<rparr>"

section \<open>Lemmas about double arithmetic\<close>

text \<open>
  Below 2^53 the quotient of two integers, rounded to a double, has the floor and the ceiling
  of the exact quotient, and an integer of magnitude up to 2^53 is a double.
\<close>

lemma round_half_even_near:
  assumes "0 < d"
  shows "\<bar>real_of_int (round_half_even n d) - real_of_int n / real_of_int d\<bar> \<le> 1 / 2"
proof -
  let ?q = "n div d" and ?r = "n mod d"
  have r: "0 \<le> ?r" "?r < d" using assms by simp_all
  have n: "real_of_int n = real_of_int ?q * real_of_int d + real_of_int ?r"
    by (metis mult.commute mult_div_mod_eq of_int_add of_int_mult)
  have x: "real_of_int n / real_of_int d = real_of_int ?q + real_of_int ?r / real_of_int d"
    using assms by (simp add: n add_divide_distrib)
  show ?thesis
  proof (cases "d < 2 * ?r \<or> (2 * ?r = d \<and> odd ?q)")
    case True
    then have "round_half_even n d = ?q + 1" by (simp add: round_half_even_def Let_def)
    moreover have "real_of_int d \<le> 2 * real_of_int ?r" using True
      by (metis less_eq_real_def of_int_le_iff of_int_less_iff of_int_mult of_int_numeral order_refl)
    then have "1 / 2 \<le> real_of_int ?r / real_of_int d" using assms
      by (simp add: field_simps)
    moreover have "real_of_int ?r / real_of_int d < 1" using r assms by simp
    ultimately show ?thesis using x by simp
  next
    case False
    then have "round_half_even n d = ?q" by (simp add: round_half_even_def Let_def)
    moreover have "2 * ?r \<le> d" using False by linarith
    then have "2 * real_of_int ?r \<le> real_of_int d"
      by (metis of_int_le_iff of_int_mult of_int_numeral)
    then have "real_of_int ?r / real_of_int d \<le> 1 / 2" using assms
      by (simp add: field_simps)
    moreover have "0 \<le> real_of_int ?r / real_of_int d" using r assms by simp
    ultimately show ?thesis using x by simp
  qed
qed


lemma bitlen_pos_bounds:
  assumes "0 < n"
  shows "\<exists>a::nat. bitlen n = int a + 1 \<and> 2 ^ a \<le> n \<and> n < 2 ^ (a + 1)"
proof -
  have pos: "1 \<le> bitlen n"
    using bitlen_nonneg [of n] bitlen_eq_zero_iff [of n] assms by linarith
  define a where "a = nat (bitlen n - 1)"
  have a: "bitlen n = int a + 1" using pos by (simp add: a_def)
  have b1: "nat (bitlen n) = a + 1" using a by simp
  have b2: "nat (bitlen n - 1) = a" by (simp add: a_def)
  have "2 ^ a \<le> n \<and> n < 2 ^ (a + 1)"
    using bitlen_bounds [OF assms] unfolding b1 b2 .
  then show ?thesis using a by blast
qed


lemma double_regime:
  assumes n: "0 < n" "n < 2 ^ 53" and d: "0 < d"
  shows "\<exists>j. double_quotient n d = (round_half_even (n * 2 ^ j) d, - int j) \<and>
             d * 2 ^ 52 \<le> n * 2 ^ j \<and> n * 2 ^ j < d * 2 ^ 53"
proof -
  from bitlen_pos_bounds [OF n(1)] obtain a :: nat where
    a: "bitlen n = int a + 1" "2 ^ a \<le> n" "n < 2 ^ (a + 1)" by blast
  from bitlen_pos_bounds [OF d] obtain b :: nat where
    b: "bitlen d = int b + 1" "2 ^ b \<le> d" "d < 2 ^ (b + 1)" by blast
  have "(2::int) ^ a < 2 ^ 53" using a(2) n(2) by linarith
  then have "a < 53" by (intro power_less_imp_less_exp [where a = "2::int"]) simp_all
  then have a52: "a \<le> 52" by simp
  define j1 where "j1 = 52 - a + b"
  have s: "bitlen n - bitlen d = int a - int b" using a(1) b(1) by simp
  have cancel: "x * c \<le> y * c \<longleftrightarrow> x \<le> y" if "0 < c" for x y c :: int
    using that by simp
  have cond: "(case scale n d (int a - int b) of (x, y) \<Rightarrow> y \<le> x) \<longleftrightarrow> d * 2 ^ 52 \<le> n * 2 ^ j1"
  proof (cases "a \<le> b")
    case True
    then have "j1 = (b - a) + 52" using a52 by (simp add: j1_def)
    then have eq: "n * 2 ^ j1 = (n * 2 ^ (b - a)) * 2 ^ 52" by (simp only: power_add mult.assoc)
    have "nat (- (int a - int b)) = b - a" by arith
    then have sc: "scale n d (int a - int b) = (n * 2 ^ (b - a), d)"
      using True by (simp add: scale_def)
    show ?thesis unfolding sc eq prod.case
      by (rule cancel [symmetric]) simp
  next
    case False
    then have "52 = (a - b) + j1" using a52 by (simp add: j1_def)
    then have "(2::int) ^ 52 = 2 ^ (a - b) * 2 ^ j1" by (metis power_add)
    then have eq: "d * 2 ^ 52 = (d * 2 ^ (a - b)) * 2 ^ j1" by (simp only: mult.assoc)
    have "nat (int a - int b) = a - b" by arith
    then have sc: "scale n d (int a - int b) = (n, d * 2 ^ (a - b))"
      using False by (simp add: scale_def)
    show ?thesis unfolding sc eq prod.case
      by (rule cancel [symmetric]) simp
  qed
  have up: "n * 2 ^ j1 < d * 2 ^ 53"
  proof -
    have "n * 2 ^ j1 < 2 ^ (a + 1) * 2 ^ j1" using a(3) by simp
    also have "\<dots> = 2 ^ b * 2 ^ 53"
    proof -
      have "(a + 1) + j1 = b + 53" using a52 by (simp add: j1_def)
      then show ?thesis by (metis power_add)
    qed
    also have "\<dots> \<le> d * 2 ^ 53" using b(2) by simp
    finally show ?thesis .
  qed
  have low: "d * 2 ^ 52 < n * 2 ^ (j1 + 1)"
  proof -
    have "d * 2 ^ 52 < 2 ^ (b + 1) * 2 ^ 52" using b(3) by simp
    also have "\<dots> = 2 ^ a * 2 ^ (j1 + 1)"
    proof -
      have "(b + 1) + 52 = a + (j1 + 1)" using a52 by (simp add: j1_def)
      then show ?thesis by (metis power_add)
    qed
    also have "\<dots> \<le> n * 2 ^ (j1 + 1)" using a(2) by simp
    finally show ?thesis .
  qed
  show ?thesis
  proof (cases "d * 2 ^ 52 \<le> n * 2 ^ j1")
    case True
    then have lg: "floor_log2 n d = int a - int b"
      using cond by (simp add: floor_log2_def s split: prod.splits)
    have e: "int a - int b - 52 = - int j1" using a52 by (simp add: j1_def)
    have "double_quotient n d = (round_half_even (n * 2 ^ j1) d, - int j1)"
      using n(1) by (simp add: double_quotient_def lg e scale_def)
    then show ?thesis using True up by blast
  next
    case False
    then have lg: "floor_log2 n d = int a - int b - 1"
      using cond by (simp add: floor_log2_def s split: prod.splits)
    have e: "int a - int b - 1 - 52 = - int (j1 + 1)" using a52 by (simp add: j1_def)
    have "double_quotient n d = (round_half_even (n * 2 ^ (j1 + 1)) d, - int (j1 + 1))"
      using n(1) unfolding double_quotient_def lg e by (simp add: scale_def nat_add_distrib)
    moreover have "n * 2 ^ (j1 + 1) < d * 2 ^ 53" using False by simp
    ultimately show ?thesis using low by (metis less_imp_le)
  qed
qed


lemma double_floor_neg_exp: "double_floor (m, - int j) = m div 2 ^ j"
  by (cases j) (simp_all add: double_floor_def nat_add_distrib)

lemma double_ceiling_neg_exp: "double_ceiling (m, - int j) = - ((- m) div 2 ^ j)"
  by (cases j) (simp_all add: double_ceiling_def nat_add_distrib)

lemma scaled_rounding:
  assumes n: "0 < n" and d: "0 < d" and dj: "d < 2 * 2 ^ j"
  shows "(n div d) * 2 ^ j \<le> round_half_even (n * 2 ^ j) d"
    and "round_half_even (n * 2 ^ j) d < (n div d + 1) * 2 ^ j"
    and "d dvd n \<Longrightarrow> round_half_even (n * 2 ^ j) d = (n div d) * 2 ^ j"
    and "\<not> d dvd n \<Longrightarrow> (n div d) * 2 ^ j < round_half_even (n * 2 ^ j) d"
proof -
  let ?m = "round_half_even (n * 2 ^ j) d"
  let ?k = "n div d"
  let ?x = "real_of_int (n * 2 ^ j) / real_of_int d"
  have near: "\<bar>real_of_int ?m - ?x\<bar> \<le> 1 / 2" using d by (rule round_half_even_near)
  have dpos: "0 < real_of_int d" using d by simp
  have x: "?x = (real_of_int n / real_of_int d) * 2 ^ j" by simp
  have nd: "real_of_int n / real_of_int d = real_of_int ?k + real_of_int (n mod d) / real_of_int d"
  proof -
    have "real_of_int n = real_of_int d * real_of_int ?k + real_of_int (n mod d)"
      by (metis mult_div_mod_eq of_int_add of_int_mult)
    then show ?thesis using dpos by (simp add: field_simps)
  qed
  have half: "1 / 2 < 2 ^ j / real_of_int d"
  proof -
    have "real_of_int d < real_of_int (2 * 2 ^ j)" using dj by (simp only: of_int_less_iff)
    then have "real_of_int d < 2 * 2 ^ j" by simp
    then show ?thesis using dpos by (simp add: field_simps)
  qed
  have lo: "real_of_int ?k * 2 ^ j \<le> ?x"
  proof -
    have "0 \<le> real_of_int (n mod d) / real_of_int d" using d by simp
    then have "real_of_int ?k \<le> real_of_int n / real_of_int d" using nd by linarith
    from mult_right_mono [OF this, of "2 ^ j"] show ?thesis unfolding x by simp
  qed
  have "real_of_int ?k * 2 ^ j - 1 / 2 \<le> real_of_int ?m" using near lo by linarith
  then have "real_of_int (?k * 2 ^ j) - 1 < real_of_int ?m" by simp
  then show "?k * 2 ^ j \<le> ?m" by linarith
  have hi: "?x \<le> real_of_int (?k + 1) * 2 ^ j - 2 ^ j / real_of_int d"
  proof -
    have "n mod d \<le> d - 1" using d by simp
    then have "real_of_int (n mod d) \<le> real_of_int d - 1" by linarith
    then have "real_of_int (n mod d) / real_of_int d \<le> 1 - 1 / real_of_int d"
      using dpos by (simp add: field_simps)
    then have "real_of_int n / real_of_int d \<le> real_of_int (?k + 1) - 1 / real_of_int d"
      using nd by simp
    from mult_right_mono [OF this, of "2 ^ j"]
    have "(real_of_int n / real_of_int d) * 2 ^ j
        \<le> (real_of_int (?k + 1) - 1 / real_of_int d) * 2 ^ j"
      by simp
    then show ?thesis unfolding x by (simp add: algebra_simps)
  qed
  have "real_of_int ?m < real_of_int (?k + 1) * 2 ^ j" using near hi half by linarith
  then have "real_of_int ?m < real_of_int ((?k + 1) * 2 ^ j)" by simp
  then show "?m < (?k + 1) * 2 ^ j" by linarith
  show "?m = ?k * 2 ^ j" if "d dvd n"
  proof -
    have "n mod d = 0" using that by simp
    then have "?x = real_of_int (?k * 2 ^ j)" using nd x by simp
    then have "\<bar>real_of_int ?m - real_of_int (?k * 2 ^ j)\<bar> \<le> 1 / 2" using near by simp
    then have "\<bar>real_of_int (?m - ?k * 2 ^ j)\<bar> < 1" by simp
    then have "\<bar>?m - ?k * 2 ^ j\<bar> < 1" by linarith
    then show ?thesis by simp
  qed
  show "?k * 2 ^ j < ?m" if "\<not> d dvd n"
  proof -
    have "n mod d \<noteq> 0" using that by (simp add: dvd_eq_mod_eq_0)
    moreover have "0 \<le> n mod d" using d by simp
    ultimately have "1 \<le> n mod d" by arith
    then have "1 / real_of_int d \<le> real_of_int (n mod d) / real_of_int d"
      using dpos by (simp add: divide_right_mono)
    then have "real_of_int ?k + 1 / real_of_int d \<le> real_of_int n / real_of_int d"
      using nd by simp
    from mult_right_mono [OF this, of "2 ^ j"]
    have "(real_of_int ?k + 1 / real_of_int d) * 2 ^ j \<le> ?x"
      unfolding x by simp
    then have "real_of_int ?k * 2 ^ j + 2 ^ j / real_of_int d \<le> ?x"
      by (simp add: algebra_simps)
    then have "real_of_int ?k * 2 ^ j < real_of_int ?m" using near half by linarith
    then have "real_of_int (?k * 2 ^ j) < real_of_int ?m" by simp
    then show ?thesis by linarith
  qed
qed


lemma regime_scale:
  fixes n d :: int
  assumes "0 < n" "n < 2 ^ 53" "d * 2 ^ 52 \<le> n * 2 ^ j"
  shows "d < 2 * 2 ^ j"
proof -
  have "n * 2 ^ j < 2 ^ 53 * 2 ^ j" using assms(2) by (intro mult_strict_right_mono) simp_all
  then have "d * 2 ^ 52 < 2 ^ 53 * 2 ^ j" using assms(3) by linarith
  then have "d * 2 ^ 52 < (2 * 2 ^ j) * 2 ^ 52" by simp
  then show ?thesis by (simp only: mult_less_cancel_right_pos zero_less_power zero_less_numeral)
qed

lemma double_floor_exact:
  assumes "0 \<le> n" "n < 9007199254740992" "0 < d"
  shows "double_floor (double_quotient n d) = n div d"
proof (cases "n = 0")
  case True
  then show ?thesis by (simp add: double_quotient_def double_floor_def)
next
  case False
  then have n: "0 < n" "n < 2 ^ 53" using assms by simp_all
  from double_regime [OF n assms(3)] obtain j where
    j: "double_quotient n d = (round_half_even (n * 2 ^ j) d, - int j)"
       "d * 2 ^ 52 \<le> n * 2 ^ j" by blast
  have dj: "d < 2 * 2 ^ j" using regime_scale [OF n j(2)] .
  note r = scaled_rounding [OF n(1) assms(3) dj]
  have "round_half_even (n * 2 ^ j) d div 2 ^ j = n div d"
  proof (rule int_div_pos_eq [where r = "round_half_even (n * 2 ^ j) d - (n div d) * 2 ^ j"])
    show "round_half_even (n * 2 ^ j) d - n div d * 2 ^ j < 2 ^ j" using r(2) by (simp add: algebra_simps)
    show "0 \<le> round_half_even (n * 2 ^ j) d - n div d * 2 ^ j" using r(1) by simp
  qed simp
  then show ?thesis unfolding j(1) double_floor_neg_exp .
qed

lemma double_ceiling_exact:
  assumes "0 \<le> n" "n < 9007199254740992" "0 < d"
  shows "double_ceiling (double_quotient n d) = - ((- n) div d)"
proof (cases "n = 0")
  case True
  then show ?thesis by (simp add: double_quotient_def double_ceiling_def)
next
  case False
  then have n: "0 < n" "n < 2 ^ 53" using assms by simp_all
  from double_regime [OF n assms(3)] obtain j where
    j: "double_quotient n d = (round_half_even (n * 2 ^ j) d, - int j)"
       "d * 2 ^ 52 \<le> n * 2 ^ j" by blast
  have dj: "d < 2 * 2 ^ j" using regime_scale [OF n j(2)] .
  note r = scaled_rounding [OF n(1) assms(3) dj]
  let ?m = "round_half_even (n * 2 ^ j) d"
  show ?thesis
  proof (cases "d dvd n")
    case True
    then have "?m = (n div d) * 2 ^ j" by (rule r(3))
    then have "(- ?m) div 2 ^ j = - (n div d)"
      by (intro int_div_pos_eq [where r = 0]) simp_all
    moreover have "(- n) div d = - (n div d)" using True by (simp add: dvd_neg_div)
    ultimately show ?thesis unfolding j(1) double_ceiling_neg_exp by simp
  next
    case False
    have lo: "(n div d) * 2 ^ j < ?m" using False by (rule r(4))
    have "(- ?m) div 2 ^ j = - (n div d) - 1"
    proof (rule int_div_pos_eq [where r = "(n div d + 1) * 2 ^ j - ?m"])
      show "(n div d + 1) * 2 ^ j - ?m < 2 ^ j" using lo by (simp add: algebra_simps)
      show "0 \<le> (n div d + 1) * 2 ^ j - ?m" using r(2) by simp
    qed (simp add: algebra_simps)
    moreover have "(- n) div d = - (n div d) - 1"
      using False assms(3) by (simp add: zdiv_zminus1_eq_if dvd_eq_mod_eq_0)
    ultimately show ?thesis unfolding j(1) double_ceiling_neg_exp by simp
  qed
qed

lemma round_half_even_one: "round_half_even n 1 = n"
  by (simp add: round_half_even_def)

lemma to_double_exact:
  assumes "- 9007199254740992 \<le> n" "n \<le> 9007199254740992"
  shows "to_double n = n"
proof -
  have pos: "double_floor (double_quotient k 1) = k \<and> k < 2 ^ 1024"
    if "0 \<le> k" "k \<le> 9007199254740992" for k
  proof (cases "k = 9007199254740992")
    case True
    then show ?thesis
      by (simp add: double_floor_def double_quotient_def floor_log2_def scale_def
            round_half_even_def compute_bitlen Let_def)
  next
    case False
    then have "double_floor (double_quotient k 1) = k div 1"
      using that by (intro double_floor_exact) simp_all
    moreover have "k < 2 ^ 1024"
    proof -
      have "k < 2 ^ 54" using that by simp
      also have "(2::int) ^ 54 \<le> 2 ^ 1024" by (intro power_increasing) simp_all
      finally show ?thesis .
    qed
    ultimately show ?thesis by simp
  qed
  have "0 \<le> \<bar>n\<bar>" "\<bar>n\<bar> \<le> 9007199254740992" using assms by simp_all
  from pos [OF this] show ?thesis
    by (simp add: to_double_def Let_def mult_sgn_abs)
qed

section \<open>Evaluation on concrete inputs\<close>

lemmas double_defs = to_double_def double_floor_def double_ceiling_def double_quotient_def
  floor_log2_def scale_def round_half_even_def compute_bitlen Let_def

lemmas parse_defs = parseInt_def parseInt10_def signed_value_def unsigned_value_def
  digits_value_def is_digit_def digit_of_def is_space_def num_or_def to_double_exact
  finite_number_def int64_def

lemmas page_defs = double_floor_exact double_ceiling_exact to_double_exact

lemmas vote_defs = POST_vote_def DELETE_vote_def castVote_def removeVote_def load_feedback_def
  vote_result_def voteSchema_def vote_type_of_text_def voter_cond_def insert_vote_def
  vote_conflict_def update_vote_type_def delete_vote_def update_feedback_def next_id_def
  stored_now_def
  verifyApiKey_def getClientInfo_def truthy_def or_else_def or_null_def

lemmas example_defs = example_site_def example_item_def example_db_def example_env_def
  vote_request_def example_ops_def example_voted_def example_up_def
  example_half_written_def

lemmas submit_defs = POST_feedback_def admit_submission_def submit_def store_submission_def
  feedbackSubmissionSchema_def fb_type_of_text_def opt_ok_def recentSubmissions_def
  new_feedback_def new_event_def category_exists_def next_id_def stored_now_def
  verifyApiKey_def getClientInfo_def truthy_def or_else_def or_null_def

lemmas example_defs2 = submission_request_def example_rows_def example_data_def

lemmas list_defs = GET_feedback_def websiteId_of_def list_feedback_def feedbackQuerySchema_def
  raw_query_of_def opt_enum_def sort_of_text_def fb_status_of_text_def fb_type_of_text_def
  conditions_def resolve_category_def orderBy_def select_rows_def left_join_def sort_by_def
  all_hold_def to_item_def verifyApiKey_def truthy_def or_else_def or_null_def
  page_defs

lemmas example_defs3 = list_request_def example_list_db_def example_many_def
  example_category_def example_cat_db_def

lemmas admit_list_defs = GET_feedback_def websiteId_of_def list_feedback_def
  feedbackQuerySchema_def raw_query_of_def opt_enum_def sort_of_text_def
  conditions_def orderBy_def verifyApiKey_def truthy_def or_else_def or_null_def
  page_defs

section \<open>Lemmas about the vote ledger\<close>

lemma fold_max_bound: "a \<le> fold max ids a \<and> (\<forall>x \<in> set ids. x \<le> fold max ids (a::int))"
proof (induction ids arbitrary: a)
  case Nil
  then show ?case by simp
next
  case (Cons i ids)
  have "max i a \<le> fold max ids (max i a)" using Cons.IH by blast
  then show ?case using Cons.IH [of "max i a"] by auto
qed

lemma next_id_fresh: "x \<in> set ids \<Longrightarrow> x < next_id ids"
  using fold_max_bound [of 0 ids] by (auto simp: next_id_def)

lemma update_absent:
  "vid \<notin> v_id ` set vs \<Longrightarrow> update_vote_type vid t vs = vs"
  by (induction vs) (auto simp: update_vote_type_def)

lemma count_update:
  "distinct (map v_id vs) \<Longrightarrow> x \<in> set vs \<Longrightarrow>
   length (filter P (update_vote_type (v_id x) t vs)) + (if P x then 1 else 0)
     = length (filter P vs) + (if P (x\<lparr>v_voteType := t\<rparr>) then 1 else 0)"
proof (induction vs)
  case Nil
  then show ?case by simp
next
  case (Cons y vs)
  show ?case
  proof (cases "y = x")
    case True
    then have "v_id x \<notin> v_id ` set vs" using Cons.prems by auto
    then have "update_vote_type (v_id x) t vs = vs" by (rule update_absent)
    then have "update_vote_type (v_id x) t (y # vs) = x\<lparr>v_voteType := t\<rparr> # vs"
      using True by (simp add: update_vote_type_def)
    then show ?thesis using True by simp
  next
    case False
    then have xin: "x \<in> set vs" using Cons.prems by simp
    then have "v_id y \<noteq> v_id x" using Cons.prems by force
    then have "update_vote_type (v_id x) t (y # vs) = y # update_vote_type (v_id x) t vs"
      by (simp add: update_vote_type_def)
    then show ?thesis using Cons.IH xin Cons.prems by simp
  qed
qed

lemma count_delete:
  "distinct (map v_id vs) \<Longrightarrow> x \<in> set vs \<Longrightarrow>
   length (filter P (delete_vote (v_id x) vs)) + (if P x then 1 else 0) = length (filter P vs)"
proof (induction vs)
  case Nil
  then show ?case by simp
next
  case (Cons y vs)
  show ?case
  proof (cases "y = x")
    case True
    then have "\<forall>z \<in> set vs. v_id z \<noteq> v_id x" using Cons.prems by (auto simp: image_iff)
    then have "delete_vote (v_id x) vs = vs"
      by (simp add: delete_vote_def filter_id_conv)
    then show ?thesis using True by (simp add: delete_vote_def)
  next
    case False
    then have xin: "x \<in> set vs" using Cons.prems by simp
    then have "v_id y \<noteq> v_id x" using Cons.prems by force
    then have "delete_vote (v_id x) (y # vs) = y # delete_vote (v_id x) vs"
      by (simp add: delete_vote_def)
    then show ?thesis using Cons.IH xin Cons.prems by simp
  qed
qed

lemma vote_result_db: "snd (vote_result e i d) = d"
  by (simp add: vote_result_def split: option.splits)

lemma vote_result_eq: "vote_result e i d = (r, d') \<Longrightarrow> d' = d"
  using vote_result_db [of e i d] by simp

lemma update_feedback_set:
  "f' \<in> set (update_feedback i g fs) \<Longrightarrow>
   (f' \<in> set fs \<and> f_id f' \<noteq> i) \<or> (\<exists>f \<in> set fs. f_id f = i \<and> f' = g f)"
  by (auto simp: update_feedback_def split: if_splits)

lemma find_feedback: "find (\<lambda>f. f_id f = i) fs = Some fb \<Longrightarrow> fb \<in> set fs \<and> f_id fb = i"
  by (auto simp: find_Some_iff)

lemma find_vote:
  "find (voter_cond i m ip) vs = Some x \<Longrightarrow> x \<in> set vs \<and> v_feedbackId x = i"
  by (auto simp: find_Some_iff voter_cond_def)

lemma count_votes_flip:
  assumes "distinct (map v_id vs)" "x \<in> set vs" "v_voteType x \<noteq> t"
  shows "int (count_votes i t' (update_vote_type (v_id x) t vs)) =
         int (count_votes i t' vs) +
           (if v_feedbackId x = i then (if t' = t then 1 else - 1) else 0)"
proof -
  let ?P = "\<lambda>v. v_feedbackId v = i \<and> v_voteType v = t'"
  have "length (filter ?P (update_vote_type (v_id x) t vs)) + (if ?P x then 1 else 0)
     = length (filter ?P vs) + (if ?P (x\<lparr>v_voteType := t\<rparr>) then 1 else 0)"
    using assms(1,2) by (rule count_update)
  moreover have "t' \<noteq> t \<Longrightarrow> v_voteType x = t'"
    using assms(3) by (cases t; cases t'; cases "v_voteType x") auto
  ultimately show ?thesis using assms(3)
    by (auto simp: count_votes_def split: if_splits)
qed

lemma count_votes_delete:
  assumes "distinct (map v_id vs)" "x \<in> set vs"
  shows "int (count_votes i t' (delete_vote (v_id x) vs)) =
         int (count_votes i t' vs) -
           (if v_feedbackId x = i \<and> v_voteType x = t' then 1 else 0)"
proof -
  let ?P = "\<lambda>v. v_feedbackId v = i \<and> v_voteType v = t'"
  have "length (filter ?P (delete_vote (v_id x) vs)) + (if ?P x then 1 else 0)
     = length (filter ?P vs)"
    using assms by (rule count_delete)
  then show ?thesis by (auto simp: count_votes_def split: if_splits)
qed

lemma insert_vote_Some:
  "insert_vote tm i t m ip vs = Some vs' \<Longrightarrow>
   vs' = vs @ [\<lparr>v_id = next_id (map v_id vs), v_feedbackId = i, v_voterEmail = m,
                v_voterIp = ip, v_voteType = t, v_createdAt = tm\<rparr>]"
  by (auto simp: insert_vote_def Let_def split: if_splits)

lemma count_votes_insert:
  "insert_vote tm j t m ip vs = Some vs' \<Longrightarrow>
   int (count_votes i t' vs') =
     int (count_votes i t' vs) + (if j = i \<and> t = t' then 1 else 0)"
  by (auto dest!: insert_vote_Some simp: count_votes_def)


lemma castVote_new:
  assumes "find (voter_cond i (vd_voterEmail vd) ip) (FeedbackVotes d) = None"
  shows "castVote e i vd fb ip d =
    (if ReadVote \<in> faults e \<or> WriteVote \<in> faults e then (internal_error, d)
     else case insert_vote (stored_now e) i (vd_voteType vd) (or_null (vd_voterEmail vd)) ip
                 (FeedbackVotes d) of
        None \<Rightarrow> (internal_error, d)
      | Some vs \<Rightarrow>
          if WriteCounters \<in> faults e then (internal_error, d\<lparr>FeedbackVotes := vs\<rparr>)
          else vote_result e i
             (d\<lparr>FeedbackVotes := vs,
                Feedback := update_feedback i
                  (if vd_voteType vd = Up
                   then (\<lambda>f. f\<lparr>f_upvotes := f_upvotes fb + 1, f_updatedAt := now e\<rparr>)
                   else (\<lambda>f. f\<lparr>f_downvotes := f_downvotes fb + 1, f_updatedAt := now e\<rparr>))
                  (Feedback d)\<rparr>))"
  using assms by (simp add: castVote_def Let_def split: option.split)

lemma castVote_same:
  assumes "find (voter_cond i (vd_voterEmail vd) ip) (FeedbackVotes d) = Some x"
    and "v_voteType x = vd_voteType vd"
  shows "castVote e i vd fb ip d =
    (if ReadVote \<in> faults e then (internal_error, d) else vote_result e i d)"
  using assms by (simp add: castVote_def)

lemma castVote_flip:
  assumes "find (voter_cond i (vd_voterEmail vd) ip) (FeedbackVotes d) = Some x"
    and "v_voteType x \<noteq> vd_voteType vd"
  shows "castVote e i vd fb ip d =
    (if ReadVote \<in> faults e \<or> WriteVote \<in> faults e then (internal_error, d)
     else if WriteCounters \<in> faults e
       then (internal_error,
             d\<lparr>FeedbackVotes := update_vote_type (v_id x) (vd_voteType vd) (FeedbackVotes d)\<rparr>)
     else vote_result e i
       (d\<lparr>FeedbackVotes := update_vote_type (v_id x) (vd_voteType vd) (FeedbackVotes d),
          Feedback := update_feedback i
            (\<lambda>f. f\<lparr>f_upvotes := f_upvotes fb + (if vd_voteType vd = Up then 1 else - 1),
                   f_downvotes := f_downvotes fb + (if vd_voteType vd = Down then 1 else - 1),
                   f_updatedAt := now e\<rparr>)
            (Feedback d)\<rparr>))"
  using assms by (simp add: castVote_def Let_def)




lemma ledger_step:
  assumes cons: "ledger_consistent d"
    and fb: "fb \<in> set (Feedback d)" "f_id fb = i"
    and cnt: "\<And>j t. int (count_votes j t vs) =
        int (count_votes j t (FeedbackVotes d)) + (if j = i then delta t else 0)"
    and g: "\<And>f. f_id f = i \<Longrightarrow> f_upvotes f = f_upvotes fb \<Longrightarrow> f_downvotes f = f_downvotes fb \<Longrightarrow>
        f_id (g f) = i \<and> f_upvotes (g f) = f_upvotes fb + delta Up \<and>
        f_downvotes (g f) = f_downvotes fb + delta Down"
  shows "ledger_consistent (d\<lparr>FeedbackVotes := vs, Feedback := update_feedback i g (Feedback d)\<rparr>)"
  unfolding ledger_consistent_def
proof (rule ballI)
  fix f'
  assume "f' \<in> set (Feedback (d\<lparr>FeedbackVotes := vs, Feedback := update_feedback i g (Feedback d)\<rparr>))"
  then obtain f where f: "f \<in> set (Feedback d)" "f' = (if f_id f = i then g f else f)"
    by (auto simp: update_feedback_def)
  have fc: "f_upvotes f = int (count_votes (f_id f) Up (FeedbackVotes d))"
       "f_downvotes f = int (count_votes (f_id f) Down (FeedbackVotes d))"
    using cons f(1) by (simp_all add: ledger_consistent_def)
  have fbc: "f_upvotes fb = int (count_votes i Up (FeedbackVotes d))"
       "f_downvotes fb = int (count_votes i Down (FeedbackVotes d))"
    using cons fb by (auto simp: ledger_consistent_def)
  show "f_upvotes f' =
          int (count_votes (f_id f') Up
            (FeedbackVotes (d\<lparr>FeedbackVotes := vs, Feedback := update_feedback i g (Feedback d)\<rparr>))) \<and>
        f_downvotes f' =
          int (count_votes (f_id f') Down
            (FeedbackVotes (d\<lparr>FeedbackVotes := vs, Feedback := update_feedback i g (Feedback d)\<rparr>)))"
  proof (cases "f_id f = i")
    case True
    then have "f_upvotes f = f_upvotes fb" "f_downvotes f = f_downvotes fb"
      using fc fbc by simp_all
    from g [OF True this] show ?thesis using f(2) True fbc cnt by simp
  next
    case False
    then show ?thesis using f(2) fc cnt by simp
  qed
qed



lemma castVote_new_ok:
  assumes None: "find (voter_cond i (vd_voterEmail vd) ip) (FeedbackVotes d) = None"
    and run: "castVote e i vd fb ip d = (r, d')" and ok: "status r \<noteq> 500"
  shows "\<exists>vs. insert_vote (stored_now e) i (vd_voteType vd) (or_null (vd_voterEmail vd)) ip
              (FeedbackVotes d) = Some vs
    \<and> d' = d\<lparr>FeedbackVotes := vs, Feedback := update_feedback i (if vd_voteType vd = Up
            then (\<lambda>f. f\<lparr>f_upvotes := f_upvotes fb + 1, f_updatedAt := now e\<rparr>)
            else (\<lambda>f. f\<lparr>f_downvotes := f_downvotes fb + 1, f_updatedAt := now e\<rparr>)) (Feedback d)\<rparr>"
  using run ok unfolding castVote_new [OF None]
  by (auto split: if_splits option.splits dest!: vote_result_eq)

lemma castVote_flip_ok:
  assumes Some: "find (voter_cond i (vd_voterEmail vd) ip) (FeedbackVotes d) = Some x"
    and diff: "v_voteType x \<noteq> vd_voteType vd"
    and run: "castVote e i vd fb ip d = (r, d')" and ok: "status r \<noteq> 500"
  shows "d' = d\<lparr>FeedbackVotes := update_vote_type (v_id x) (vd_voteType vd) (FeedbackVotes d),
          Feedback := update_feedback i
            (\<lambda>f. f\<lparr>f_upvotes := f_upvotes fb + (if vd_voteType vd = Up then 1 else - 1),
                   f_downvotes := f_downvotes fb + (if vd_voteType vd = Down then 1 else - 1),
                   f_updatedAt := now e\<rparr>)
            (Feedback d)\<rparr>"
  using run ok unfolding castVote_flip [OF Some diff]
  by (auto split: if_splits dest!: vote_result_eq)

lemma castVote_same_db:
  assumes Some: "find (voter_cond i (vd_voterEmail vd) ip) (FeedbackVotes d) = Some x"
    and same: "v_voteType x = vd_voteType vd"
    and run: "castVote e i vd fb ip d = (r, d')"
  shows "d' = d"
  using run unfolding castVote_same [OF Some same]
  by (auto split: if_splits dest!: vote_result_eq)

lemma castVote_consistent:
  assumes cons: "ledger_consistent d" and ids: "vote_ids_unique d"
    and fb: "fb \<in> set (Feedback d)" "f_id fb = i"
    and run: "castVote e i vd fb ip d = (r, d')" and ok: "status r \<noteq> 500"
  shows "ledger_consistent d' \<and> vote_ids_unique d'"
proof (cases "find (voter_cond i (vd_voterEmail vd) ip) (FeedbackVotes d)")
  case None
  let ?g = "if vd_voteType vd = Up
            then (\<lambda>f. f\<lparr>f_upvotes := f_upvotes fb + 1, f_updatedAt := now e\<rparr>)
            else (\<lambda>f. f\<lparr>f_downvotes := f_downvotes fb + 1, f_updatedAt := now e\<rparr>)"
  from castVote_new_ok [OF None run ok] obtain vs where
    ins: "insert_vote (stored_now e) i (vd_voteType vd) (or_null (vd_voterEmail vd)) ip (FeedbackVotes d) = Some vs"
    and d': "d' = d\<lparr>FeedbackVotes := vs, Feedback := update_feedback i ?g (Feedback d)\<rparr>"
    by blast
  have dn: "vd_voteType vd \<noteq> Up \<Longrightarrow> vd_voteType vd = Down"
    by (cases "vd_voteType vd") auto
  have "ledger_consistent (d\<lparr>FeedbackVotes := vs, Feedback := update_feedback i ?g (Feedback d)\<rparr>)"
  proof (rule ledger_step [OF cons fb, where delta = "\<lambda>t. if vd_voteType vd = t then 1 else 0"])
    show "int (count_votes j t vs) = int (count_votes j t (FeedbackVotes d)) +
        (if j = i then if vd_voteType vd = t then 1 else 0 else 0)" for j t
      using count_votes_insert [OF ins, of j t] by auto
  next
    show "f_id f = i \<Longrightarrow> f_upvotes f = f_upvotes fb \<Longrightarrow> f_downvotes f = f_downvotes fb \<Longrightarrow>
        f_id (?g f) = i \<and>
        f_upvotes (?g f) = f_upvotes fb + (if vd_voteType vd = Up then 1 else 0) \<and>
        f_downvotes (?g f) = f_downvotes fb + (if vd_voteType vd = Down then 1 else 0)" for f
      using dn by simp
  qed
  moreover have "vote_ids_unique d'"
    using ids d' insert_vote_Some [OF ins] next_id_fresh [of _ "map v_id (FeedbackVotes d)"]
    by (auto simp: vote_ids_unique_def)
  ultimately show ?thesis using d' by simp
next
  case (Some x)
  then have x: "x \<in> set (FeedbackVotes d)" "v_feedbackId x = i"
    by (auto dest: find_vote)
  show ?thesis
  proof (cases "v_voteType x = vd_voteType vd")
    case True
    then have "d' = d" using castVote_same_db [OF Some True run] by simp
    then show ?thesis using cons ids by simp
  next
    case False
    let ?t = "vd_voteType vd"
    let ?vs = "update_vote_type (v_id x) ?t (FeedbackVotes d)"
    let ?g = "\<lambda>f. f\<lparr>f_upvotes := f_upvotes fb + (if ?t = Up then 1 else - 1),
                       f_downvotes := f_downvotes fb + (if ?t = Down then 1 else - 1),
                       f_updatedAt := now e\<rparr>"
    have d': "d' = d\<lparr>FeedbackVotes := ?vs, Feedback := update_feedback i ?g (Feedback d)\<rparr>"
      by (rule castVote_flip_ok [OF Some False run ok])
    have "ledger_consistent (d\<lparr>FeedbackVotes := ?vs, Feedback := update_feedback i ?g (Feedback d)\<rparr>)"
    proof (rule ledger_step [OF cons fb, where delta = "\<lambda>t. if t = ?t then 1 else - 1"])
      show "int (count_votes j t ?vs) = int (count_votes j t (FeedbackVotes d)) +
          (if j = i then if t = ?t then 1 else - 1 else 0)" for j t
        using count_votes_flip [of "FeedbackVotes d" x ?t j t] ids x False
        by (auto simp: vote_ids_unique_def)
    next
      show "f_id f = i \<Longrightarrow> f_upvotes f = f_upvotes fb \<Longrightarrow> f_downvotes f = f_downvotes fb \<Longrightarrow>
          f_id (?g f) = i \<and>
          f_upvotes (?g f) = f_upvotes fb + (if Up = ?t then 1 else - 1) \<and>
          f_downvotes (?g f) = f_downvotes fb + (if Down = ?t then 1 else - 1)" for f
        by auto
    qed
    moreover have "map v_id ?vs = map v_id (FeedbackVotes d)"
      by (simp add: update_vote_type_def)
    then have "vote_ids_unique d'" using ids d' by (simp add: vote_ids_unique_def)
    ultimately show ?thesis using d' by simp
  qed
qed

lemma removeVote_none:
  assumes "find (voter_cond i m ip) (FeedbackVotes d) = None"
  shows "removeVote e i m fb ip d =
    (if ReadVote \<in> faults e then (internal_error, d) else (Failure 404 ''Vote not found'', d))"
  using assms by (simp add: removeVote_def)

lemma removeVote_found:
  assumes "find (voter_cond i m ip) (FeedbackVotes d) = Some x"
  shows "removeVote e i m fb ip d =
    (if ReadVote \<in> faults e \<or> WriteVote \<in> faults e then (internal_error, d)
     else if WriteCounters \<in> faults e
       then (internal_error, d\<lparr>FeedbackVotes := delete_vote (v_id x) (FeedbackVotes d)\<rparr>)
     else vote_result e i
       (d\<lparr>FeedbackVotes := delete_vote (v_id x) (FeedbackVotes d),
          Feedback := update_feedback i
            (if v_voteType x = Up
             then (\<lambda>f. f\<lparr>f_upvotes := f_upvotes fb - 1, f_updatedAt := now e\<rparr>)
             else (\<lambda>f. f\<lparr>f_downvotes := f_downvotes fb - 1, f_updatedAt := now e\<rparr>))
            (Feedback d)\<rparr>))"
  using assms by (simp add: removeVote_def Let_def)

lemma removeVote_none_db:
  assumes "find (voter_cond i m ip) (FeedbackVotes d) = None"
    and "removeVote e i m fb ip d = (r, d')"
  shows "d' = d"
  using assms(2) unfolding removeVote_none [OF assms(1)] by (auto split: if_splits)

lemma removeVote_found_ok:
  assumes Some: "find (voter_cond i m ip) (FeedbackVotes d) = Some x"
    and run: "removeVote e i m fb ip d = (r, d')" and ok: "status r \<noteq> 500"
  shows "d' = d\<lparr>FeedbackVotes := delete_vote (v_id x) (FeedbackVotes d),
          Feedback := update_feedback i
            (if v_voteType x = Up
             then (\<lambda>f. f\<lparr>f_upvotes := f_upvotes fb - 1, f_updatedAt := now e\<rparr>)
             else (\<lambda>f. f\<lparr>f_downvotes := f_downvotes fb - 1, f_updatedAt := now e\<rparr>))
            (Feedback d)\<rparr>"
  using run ok unfolding removeVote_found [OF Some]
  by (auto split: if_splits dest!: vote_result_eq)

lemma removeVote_consistent:
  assumes cons: "ledger_consistent d" and ids: "vote_ids_unique d"
    and fb: "fb \<in> set (Feedback d)" "f_id fb = i"
    and run: "removeVote e i m fb ip d = (r, d')" and ok: "status r \<noteq> 500"
  shows "ledger_consistent d' \<and> vote_ids_unique d'"
proof (cases "find (voter_cond i m ip) (FeedbackVotes d)")
  case None
  then have "d' = d" using run by (rule removeVote_none_db)
  then show ?thesis using cons ids by simp
next
  case (Some x)
  then have x: "x \<in> set (FeedbackVotes d)" "v_feedbackId x = i"
    by (auto dest: find_vote)
  let ?vs = "delete_vote (v_id x) (FeedbackVotes d)"
  let ?g = "if v_voteType x = Up
            then (\<lambda>f. f\<lparr>f_upvotes := f_upvotes fb - 1, f_updatedAt := now e\<rparr>)
            else (\<lambda>f. f\<lparr>f_downvotes := f_downvotes fb - 1, f_updatedAt := now e\<rparr>)"
  have d': "d' = d\<lparr>FeedbackVotes := ?vs, Feedback := update_feedback i ?g (Feedback d)\<rparr>"
    by (rule removeVote_found_ok [OF Some run ok])
  have dn: "v_voteType x \<noteq> Up \<Longrightarrow> v_voteType x = Down"
    by (cases "v_voteType x") auto
  have "ledger_consistent (d\<lparr>FeedbackVotes := ?vs, Feedback := update_feedback i ?g (Feedback d)\<rparr>)"
  proof (rule ledger_step [OF cons fb, where delta = "\<lambda>t. if v_voteType x = t then - 1 else 0"])
    show "int (count_votes j t ?vs) = int (count_votes j t (FeedbackVotes d)) +
        (if j = i then if v_voteType x = t then - 1 else 0 else 0)" for j t
      using count_votes_delete [of "FeedbackVotes d" x j t] ids x
      by (auto simp: vote_ids_unique_def)
  next
    show "f_id f = i \<Longrightarrow> f_upvotes f = f_upvotes fb \<Longrightarrow> f_downvotes f = f_downvotes fb \<Longrightarrow>
        f_id (?g f) = i \<and>
        f_upvotes (?g f) = f_upvotes fb + (if v_voteType x = Up then - 1 else 0) \<and>
        f_downvotes (?g f) = f_downvotes fb + (if v_voteType x = Down then - 1 else 0)" for f
      using dn by simp
  qed
  moreover have "distinct (map v_id ?vs)"
    using ids by (simp add: delete_vote_def vote_ids_unique_def distinct_map_filter)
  then have "vote_ids_unique d'" using d' by (simp add: vote_ids_unique_def)
  ultimately show ?thesis using d' by simp
qed

lemma load_feedback_Inr:
  "load_feedback e r i d = Inr fb \<Longrightarrow> fb \<in> set (Feedback d) \<and> f_id fb = i"
  by (auto simp: load_feedback_def split: if_splits option.splits dest: find_feedback)

lemma POST_vote_consistent:
  assumes cons: "ledger_consistent d" and ids: "vote_ids_unique d"
    and run: "POST_vote e r d = (resp, d')" and ok: "status resp \<noteq> 500"
  shows "ledger_consistent d' \<and> vote_ids_unique d'"
proof (cases "\<exists>vd fb. req_body r \<noteq> None \<and> num_or (parseInt (req_id r)) 0 \<noteq> 0
    \<and> voteSchema e (the (req_body r)) = Some vd
    \<and> load_feedback e r (num_or (parseInt (req_id r)) 0) d = Inr fb")
  case True
  then obtain vd fb b where h: "req_body r = Some b" "num_or (parseInt (req_id r)) 0 \<noteq> 0"
    "voteSchema e b = Some vd" "load_feedback e r (num_or (parseInt (req_id r)) 0) d = Inr fb"
    by auto
  then have "castVote e (num_or (parseInt (req_id r)) 0) vd fb (fst (getClientInfo (req_headers r))) d
     = (resp, d')"
    using run by (simp add: POST_vote_def)
  then show ?thesis
    using castVote_consistent [OF cons ids _ _ _ ok] load_feedback_Inr [OF h(4)] by blast
next
  case False
  then have "d' = d" using run
    by (auto simp: POST_vote_def Let_def split: if_splits option.splits sum.splits)
  then show ?thesis using cons ids by simp
qed

lemma DELETE_vote_consistent:
  assumes cons: "ledger_consistent d" and ids: "vote_ids_unique d"
    and run: "DELETE_vote e r d = (resp, d')" and ok: "status resp \<noteq> 500"
  shows "ledger_consistent d' \<and> vote_ids_unique d'"
proof (cases "load_feedback e r (num_or (parseInt (req_id r)) 0) d")
  case (Inl a)
  then have "d' = d" using run
    by (auto simp: DELETE_vote_def Let_def split: if_splits)
  then show ?thesis using cons ids by simp
next
  case (Inr fb)
  show ?thesis
  proof (cases "num_or (parseInt (req_id r)) 0 = 0")
    case True
    then have "d' = d" using run by (simp add: DELETE_vote_def)
    then show ?thesis using cons ids by simp
  next
    case False
    then have "removeVote e (num_or (parseInt (req_id r)) 0) (req_headers r ''x-voter-email'') fb
        (fst (getClientInfo (req_headers r))) d = (resp, d')"
      using run Inr by (simp add: DELETE_vote_def)
    then show ?thesis
      using removeVote_consistent [OF cons ids _ _ _ ok] load_feedback_Inr [OF Inr] by blast
  qed
qed

lemma ledger_nonneg:
  "ledger_consistent d \<Longrightarrow> f \<in> set (Feedback d) \<Longrightarrow> 0 \<le> f_upvotes f \<and> 0 \<le> f_downvotes f"
  by (simp add: ledger_consistent_def)

lemma completed_run_consistent:
  "ledger_consistent d \<Longrightarrow> vote_ids_unique d \<Longrightarrow> completed_run ops d = Some d' \<Longrightarrow>
   ledger_consistent d' \<and> vote_ids_unique d'"
proof (induction ops arbitrary: d)
  case Nil
  then show ?case by simp
next
  case (Cons a ops)
  obtain e op where a: "a = (e, op)" by (cases a)
  obtain resp d1 where step: "apply_op e op d = (resp, d1)" by (cases "apply_op e op d")
  with Cons.prems a have ok: "status resp \<noteq> 500" and rest: "completed_run ops d1 = Some d'"
    by (auto split: if_splits)
  have "ledger_consistent d1 \<and> vote_ids_unique d1"
  proof (cases op)
    case (Cast r)
    then show ?thesis using POST_vote_consistent [OF Cons.prems(1,2) _ ok] step by simp
  next
    case (Remove r)
    then show ?thesis using DELETE_vote_consistent [OF Cons.prems(1,2) _ ok] step by simp
  qed
  then show ?case using Cons.IH rest by blast
qed


lemma load_feedback_Inl: "load_feedback e r i d = Inl x \<Longrightarrow> x \<noteq> Success 200 c"
  by (auto simp: load_feedback_def split: if_splits option.splits)

lemma POST_vote_cases:
  assumes "POST_vote e r d = (resp, d')"
  shows "(d' = d \<and> (\<forall>c. resp \<noteq> Success 200 c)) \<or>
    (\<exists>b vd fb. req_body r = Some b \<and> voteSchema e b = Some vd \<and>
       num_or (parseInt (req_id r)) 0 \<noteq> 0 \<and>
       load_feedback e r (num_or (parseInt (req_id r)) 0) d = Inr fb \<and>
       castVote e (num_or (parseInt (req_id r)) 0) vd fb (fst (getClientInfo (req_headers r))) d
         = (resp, d'))"
  using assms
  by (auto simp: POST_vote_def Let_def split: if_splits option.splits sum.splits
        dest: load_feedback_Inl)

lemma voteSchema_email: "voteSchema e b = Some vd \<Longrightarrow> vd_voterEmail vd = vb_voterEmail b"
  by (auto simp: voteSchema_def split: option.splits if_splits)

lemma voteSchema_cong: "is_email e2 = is_email e \<Longrightarrow> voteSchema e2 b = voteSchema e b"
  by (auto simp: voteSchema_def split: option.split)

lemma castVote_result:
  assumes "castVote e i vd fb ip d = (r, d1)" and "status r \<noteq> 500"
  shows "vote_result e i d1 = (r, d1)"
proof (cases "find (voter_cond i (vd_voterEmail vd) ip) (FeedbackVotes d)")
  case None
  show ?thesis using assms unfolding castVote_new [OF None]
    by (auto split: if_splits option.splits dest: vote_result_eq)
next
  case (Some x)
  show ?thesis
  proof (cases "v_voteType x = vd_voteType vd")
    case True
    show ?thesis using assms unfolding castVote_same [OF Some True]
      by (auto split: if_splits dest: vote_result_eq)
  next
    case False
    show ?thesis using assms unfolding castVote_flip [OF Some False]
      by (auto split: if_splits dest: vote_result_eq)
  qed
qed


lemma voter_cond_type [simp]: "voter_cond i m ip (v\<lparr>v_voteType := t\<rparr>) = voter_cond i m ip v"
  by (simp add: voter_cond_def)

lemma find_update_vote:
  "find (voter_cond i m ip) vs = Some x \<Longrightarrow>
   find (voter_cond i m ip) (update_vote_type (v_id x) t vs) = Some (x\<lparr>v_voteType := t\<rparr>)"
  by (induction vs) (auto simp: update_vote_type_def)

lemma filter_update_vote:
  "length (filter (voter_cond i m ip) (update_vote_type k t vs)) =
   length (filter (voter_cond i m ip) vs)"
  by (induction vs) (auto simp: update_vote_type_def)

lemma find_None_filter: "find P xs = None \<Longrightarrow> filter P xs = []"
  by (induction xs) (auto split: if_splits)

lemma find_append_new: "find P xs = None \<Longrightarrow> P n \<Longrightarrow> find P (xs @ [n]) = Some n"
  by (induction xs) (auto split: if_splits)

lemma new_vote_cond:
  "voter_cond i m ip \<lparr>v_id = k, v_feedbackId = i, v_voterEmail = or_null m,
      v_voterIp = ip, v_voteType = t, v_createdAt = tm\<rparr>"
  by (simp add: voter_cond_def or_null_def)

lemma distinct_key_filter:
  "distinct (map k xs) \<Longrightarrow> length (filter (\<lambda>x. k x = a) xs) \<le> 1"
  by (induction xs) (auto simp: filter_empty_conv image_iff)

lemma voter_rows_le_1:
  assumes "votes_unique vs"
  shows "length (filter (voter_cond i m ip) vs) \<le> 1"
proof (cases "truthy m")
  case True
  have "filter (voter_cond i m ip) vs =
        filter (\<lambda>v. (v_feedbackId v, v_voterEmail v) = (i, m))
          (filter (\<lambda>v. v_voterEmail v \<noteq> None) vs)"
    using True by (auto simp: voter_cond_def truthy_def intro!: filter_cong split: option.splits)
  then show ?thesis
    using assms distinct_key_filter
      [of "\<lambda>v. (v_feedbackId v, v_voterEmail v)" "filter (\<lambda>v. v_voterEmail v \<noteq> None) vs" "(i, m)"]
    by (simp add: votes_unique_def)
next
  case False
  have "filter (voter_cond i m ip) vs =
        filter (\<lambda>v. (v_feedbackId v, v_voterIp v) = (i, ip)) vs"
    using False by (auto simp: voter_cond_def intro!: filter_cong)
  then show ?thesis
    using assms distinct_key_filter [of "\<lambda>v. (v_feedbackId v, v_voterIp v)" vs "(i, ip)"]
    by (simp add: votes_unique_def)
qed

lemma find_Some_filter: "find P xs = Some x \<Longrightarrow> 1 \<le> length (filter P xs)"
  by (induction xs) (auto split: if_splits)

text \<open>What a cast that answered 200 leaves behind.\<close>

lemma castVote_leaves_vote:
  assumes run: "castVote e i vd fb ip d = (r, d1)" and ok: "status r \<noteq> 500"
  shows "\<exists>x. find (voter_cond i (vd_voterEmail vd) ip) (FeedbackVotes d1) = Some x
           \<and> v_voteType x = vd_voteType vd"
proof (cases "find (voter_cond i (vd_voterEmail vd) ip) (FeedbackVotes d)")
  case None
  from castVote_new_ok [OF None run ok] obtain vs where
    ins: "insert_vote (stored_now e) i (vd_voteType vd) (or_null (vd_voterEmail vd)) ip (FeedbackVotes d) = Some vs"
    and d1: "FeedbackVotes d1 = vs"
    by auto
  show ?thesis
    unfolding d1 insert_vote_Some [OF ins]
    using find_append_new [OF None new_vote_cond] by simp
next
  case (Some x)
  show ?thesis
  proof (cases "v_voteType x = vd_voteType vd")
    case True
    then show ?thesis using castVote_same_db [OF Some True run] Some by simp
  next
    case False
    have "FeedbackVotes d1 = update_vote_type (v_id x) (vd_voteType vd) (FeedbackVotes d)"
      using castVote_flip_ok [OF Some False run ok] by simp
    then show ?thesis using find_update_vote [OF Some] by simp
  qed
qed

lemma castVote_one_row:
  assumes run: "castVote e i vd fb ip d = (r, d1)" and ok: "status r \<noteq> 500"
    and uniq: "votes_unique (FeedbackVotes d)"
  shows "length (filter (voter_cond i (vd_voterEmail vd) ip) (FeedbackVotes d1)) = 1"
proof (cases "find (voter_cond i (vd_voterEmail vd) ip) (FeedbackVotes d)")
  case None
  from castVote_new_ok [OF None run ok] obtain vs where
    ins: "insert_vote (stored_now e) i (vd_voteType vd) (or_null (vd_voterEmail vd)) ip (FeedbackVotes d) = Some vs"
    and d1: "FeedbackVotes d1 = vs"
    by auto
  show ?thesis
    unfolding d1 insert_vote_Some [OF ins]
    using find_None_filter [OF None] new_vote_cond by simp
next
  case (Some x)
  have one: "length (filter (voter_cond i (vd_voterEmail vd) ip) (FeedbackVotes d)) = 1"
    using voter_rows_le_1 [OF uniq, of i "vd_voterEmail vd" ip] find_Some_filter [OF Some]
    by simp
  show ?thesis
  proof (cases "v_voteType x = vd_voteType vd")
    case True
    then show ?thesis using castVote_same_db [OF Some True run] one by simp
  next
    case False
    have "FeedbackVotes d1 = update_vote_type (v_id x) (vd_voteType vd) (FeedbackVotes d)"
      using castVote_flip_ok [OF Some False run ok] by simp
    then show ?thesis using one by (simp add: filter_update_vote)
  qed
qed


lemma update_feedback_keys:
  "(\<And>f. f_id (g f) = f_id f \<and> f_websiteId (g f) = f_websiteId f) \<Longrightarrow>
   map (\<lambda>f. (f_id f, f_websiteId f)) (update_feedback i g fs) =
   map (\<lambda>f. (f_id f, f_websiteId f)) fs"
  by (induction fs) (auto simp: update_feedback_def)

lemma castVote_frame:
  assumes "castVote e i vd fb ip d = (r, d1)"
  shows "Websites d1 = Websites d \<and>
         map (\<lambda>f. (f_id f, f_websiteId f)) (Feedback d1) =
         map (\<lambda>f. (f_id f, f_websiteId f)) (Feedback d)"
proof (cases "find (voter_cond i (vd_voterEmail vd) ip) (FeedbackVotes d)")
  case None
  show ?thesis using assms unfolding castVote_new [OF None]
    by (auto split: if_splits option.splits dest!: vote_result_eq simp: update_feedback_keys)
next
  case (Some x)
  show ?thesis
  proof (cases "v_voteType x = vd_voteType vd")
    case True
    then show ?thesis using castVote_same_db [OF Some True assms] by simp
  next
    case False
    show ?thesis using assms unfolding castVote_flip [OF Some False]
      by (auto split: if_splits dest!: vote_result_eq simp: update_feedback_keys)
  qed
qed

lemma find_by_keys:
  "map (\<lambda>f. (f_id f, f_websiteId f)) fs1 = map (\<lambda>f. (f_id f, f_websiteId f)) fs \<Longrightarrow>
   map_option f_websiteId (find (\<lambda>f. f_id f = i) fs1) =
   map_option f_websiteId (find (\<lambda>f. f_id f = i) fs)"
proof (induction fs1 arbitrary: fs)
  case Nil
  then show ?case by simp
next
  case (Cons a fs1)
  then obtain b fs' where "fs = b # fs'" by (cases fs) auto
  then show ?case using Cons by auto
qed

lemma load_feedback_frame:
  assumes w: "Websites d1 = Websites d"
    and k: "map (\<lambda>f. (f_id f, f_websiteId f)) (Feedback d1) =
            map (\<lambda>f. (f_id f, f_websiteId f)) (Feedback d)"
    and l: "load_feedback e r i d = Inr fb" and nf: "faults e2 = {}"
  shows "\<exists>fb1. load_feedback e2 r i d1 = Inr fb1"
proof -
  from l have key: "truthy (req_headers r ''x-api-key'')"
    and fin: "finite_number i"
    and f: "find (\<lambda>f. f_id f = i) (Feedback d) = Some fb"
    and v: "verifyApiKey d (f_websiteId fb) (or_else (req_headers r ''x-api-key'') []) \<noteq> None"
    by (auto simp: load_feedback_def split: if_splits option.splits)
  from find_by_keys [OF k, of i] f obtain fb1 where
    f1: "find (\<lambda>f. f_id f = i) (Feedback d1) = Some fb1" "f_websiteId fb1 = f_websiteId fb"
    by auto
  have "verifyApiKey d1 = verifyApiKey d"
    using w by (simp add: verifyApiKey_def fun_eq_iff)
  then show ?thesis using key fin f1 v nf
    by (auto simp: load_feedback_def split: option.splits)
qed

lemma vote_result_faults:
  "vote_result e i d = (Success 200 c, d') \<Longrightarrow> ReadCounters \<notin> faults e2 \<Longrightarrow>
   vote_result e2 i d = (Success 200 c, d)"
  by (auto simp: vote_result_def split: if_splits option.splits)

lemma castVote_votes:
  assumes "castVote e i vd fb ip d = (r, d1)"
  shows "FeedbackVotes d1 = FeedbackVotes d \<or>
    (\<exists>x::vote. FeedbackVotes d1 = update_vote_type (v_id x) (vd_voteType vd) (FeedbackVotes d)) \<or>
    insert_vote (stored_now e) i (vd_voteType vd) (or_null (vd_voterEmail vd)) ip (FeedbackVotes d)
      = Some (FeedbackVotes d1)"
proof (cases "find (voter_cond i (vd_voterEmail vd) ip) (FeedbackVotes d)")
  case None
  show ?thesis using assms unfolding castVote_new [OF None]
    by (auto split: if_splits option.splits dest!: vote_result_eq)
next
  case (Some x)
  show ?thesis
  proof (cases "v_voteType x = vd_voteType vd")
    case True
    then show ?thesis using castVote_same_db [OF Some True assms] by simp
  next
    case False
    have "FeedbackVotes d1 = FeedbackVotes d \<or>
        FeedbackVotes d1 = update_vote_type (v_id x) (vd_voteType vd) (FeedbackVotes d)"
      using assms unfolding castVote_flip [OF Some False]
      by (auto split: if_splits dest!: vote_result_eq)
    then show ?thesis by blast
  qed
qed

lemma castVote_row_identity:
  assumes run: "castVote e i vd fb ip d = (r, d1)" and v': "v' \<in> set (FeedbackVotes d1)"
  shows "(\<exists>v \<in> set (FeedbackVotes d). v_id v = v_id v' \<and> v_feedbackId v = v_feedbackId v' \<and>
            v_voterEmail v = v_voterEmail v' \<and> v_voterIp v = v_voterIp v') \<or>
         (v_voterIp v' = ip \<and> v_voterEmail v' = or_null (vd_voterEmail vd))"
proof -
  consider "FeedbackVotes d1 = FeedbackVotes d"
    | x :: vote where "FeedbackVotes d1 = update_vote_type (v_id x) (vd_voteType vd) (FeedbackVotes d)"
    | "insert_vote (stored_now e) i (vd_voteType vd) (or_null (vd_voterEmail vd)) ip (FeedbackVotes d)
        = Some (FeedbackVotes d1)"
    using castVote_votes [OF run] by blast
  then show ?thesis
  proof cases
    case 1
    then show ?thesis using v' by auto
  next
    case 2
    then obtain v where "v \<in> set (FeedbackVotes d)"
      "v' = (if v_id v = v_id x then v\<lparr>v_voteType := vd_voteType vd\<rparr> else v)"
      using v' by (auto simp: update_vote_type_def)
    then show ?thesis by (cases "v_id v = v_id x") auto
  next
    case 3
    then show ?thesis using v' insert_vote_Some [OF 3] by auto
  qed
qed

lemma env_no_faults [simp]:
  "faults (e\<lparr>faults := {}\<rparr>) = {}" "now (e\<lparr>faults := {}\<rparr>) = now e"
  "stored_now (e\<lparr>faults := {}\<rparr>) = stored_now e"
  by (simp_all add: stored_now_def)

lemma castVote_separate_new:
  assumes None: "find (voter_cond i (vd_voterEmail vd) ip) (FeedbackVotes d) = None"
  shows "((ReadVote \<in> faults e \<or> WriteVote \<in> faults e) \<longrightarrow>
            castVote e i vd fb ip d = (internal_error, d)) \<and>
         (ReadVote \<notin> faults e \<and> WriteVote \<notin> faults e \<and> WriteCounters \<in> faults e \<and>
          FeedbackVotes (snd (castVote (e\<lparr>faults := {}\<rparr>) i vd fb ip d)) \<noteq> FeedbackVotes d \<longrightarrow>
            castVote e i vd fb ip d =
              (internal_error,
               d\<lparr>FeedbackVotes := FeedbackVotes (snd (castVote (e\<lparr>faults := {}\<rparr>) i vd fb ip d))\<rparr>)) \<and>
         (ReadVote \<notin> faults e \<and> WriteVote \<notin> faults e \<and> WriteCounters \<notin> faults e \<longrightarrow>
            snd (castVote e i vd fb ip d) = snd (castVote (e\<lparr>faults := {}\<rparr>) i vd fb ip d))"
  unfolding castVote_new [OF None]
  by (cases "insert_vote (stored_now e) i (vd_voteType vd) (or_null (vd_voterEmail vd)) ip (FeedbackVotes d)")
     (simp_all add: vote_result_db)


lemma castVote_separate_flip:
  assumes Some: "find (voter_cond i (vd_voterEmail vd) ip) (FeedbackVotes d) = Some x"
    and diff: "v_voteType x \<noteq> vd_voteType vd"
  shows "((ReadVote \<in> faults e \<or> WriteVote \<in> faults e) \<longrightarrow>
            castVote e i vd fb ip d = (internal_error, d)) \<and>
         (ReadVote \<notin> faults e \<and> WriteVote \<notin> faults e \<and> WriteCounters \<in> faults e \<longrightarrow>
            castVote e i vd fb ip d =
              (internal_error,
               d\<lparr>FeedbackVotes := FeedbackVotes (snd (castVote (e\<lparr>faults := {}\<rparr>) i vd fb ip d))\<rparr>)) \<and>
         (ReadVote \<notin> faults e \<and> WriteVote \<notin> faults e \<and> WriteCounters \<notin> faults e \<longrightarrow>
            snd (castVote e i vd fb ip d) = snd (castVote (e\<lparr>faults := {}\<rparr>) i vd fb ip d))"
  unfolding castVote_flip [OF Some diff]
  by (simp add: vote_result_db)

lemma castVote_separate_same:
  assumes Some: "find (voter_cond i (vd_voterEmail vd) ip) (FeedbackVotes d) = Some x"
    and same: "v_voteType x = vd_voteType vd"
  shows "snd (castVote e i vd fb ip d) = d"
  unfolding castVote_same [OF Some same]
  by (simp add: vote_result_db)

section \<open>Lemmas about the submission handler\<close>

lemma POST_feedback_admitted:
  "admit_submission e r d = Inr (data, w) \<Longrightarrow> POST_feedback e r d = submit e data w r d"
  by (simp add: POST_feedback_def)

lemma rate_limited_no_insert:
  assumes "admit_submission e r d = Inr (data, w)"
    and "w_settings w = Some s" and "rateLimit s = Some rl"
    and "CountRecent \<notin> faults e"
    and "maxSubmissions rl \<le>
           recentSubmissions e rl (s_websiteId data) (fst (getClientInfo (req_headers r))) d"
  shows "POST_feedback e r d = (Failure 429 ''Rate limit exceeded. Please try again later.'', d)"
  using assms by (simp add: POST_feedback_admitted submit_def)

lemma category_exists_new:
  "category_exists d (s_categoryId data) \<Longrightarrow>
   category_exists d (f_categoryId (new_feedback e data ip ua d))"
  by (auto simp: category_exists_def new_feedback_def split: option.splits)

section \<open>Lemmas about the listing\<close>

lemma set_insert_by: "set (insert_by le x xs) = insert x (set xs)"
  by (induction xs) auto

lemma length_insert_by: "length (insert_by le x xs) = Suc (length xs)"
  by (induction xs) auto

lemma length_sort_by: "length (sort_by le xs) = length xs"
  by (induction xs) (auto simp: sort_by_def length_insert_by)

lemma sorted_insert_by:
  assumes total: "\<And>a b. le a b \<or> le b a" and trans: "\<And>a b c. le a b \<Longrightarrow> le b c \<Longrightarrow> le a c"
  shows "sorted_wrt le xs \<Longrightarrow> sorted_wrt le (insert_by le x xs)"
proof (induction xs)
  case Nil
  then show ?case by simp
next
  case (Cons y ys)
  show ?case
  proof (cases "le x y")
    case True
    then have "\<forall>z \<in> set ys. le x z" using Cons.prems trans by auto
    then show ?thesis using True Cons.prems by simp
  next
    case False
    then have "le y x" using total by blast
    then show ?thesis using False Cons by (auto simp: set_insert_by)
  qed
qed

lemma sorted_sort_by:
  assumes "\<And>a b. le a b \<or> le b a" and "\<And>a b c. le a b \<Longrightarrow> le b c \<Longrightarrow> le a c"
  shows "sorted_wrt le (sort_by le xs)"
proof (induction xs)
  case Nil
  then show ?case by (simp add: sort_by_def)
next
  case (Cons x xs)
  have "sort_by le (x # xs) = insert_by le x (sort_by le xs)" by (simp add: sort_by_def)
  then show ?case using sorted_insert_by [of le, OF assms Cons] by simp
qed

lemma order_le_total: "order_le ob a b \<or> order_le ob b a"
proof (cases ob)
  case (Asc c)
  then show ?thesis by (cases c) auto
next
  case (Desc c)
  then show ?thesis by (cases c) auto
qed

lemma order_le_trans: "order_le ob a b \<Longrightarrow> order_le ob b c \<Longrightarrow> order_le ob a c"
proof (cases ob)
  case (Asc col)
  then show "order_le ob a b \<Longrightarrow> order_le ob b c \<Longrightarrow> order_le ob a c" by (cases col) auto
next
  case (Desc col)
  then show "order_le ob a b \<Longrightarrow> order_le ob b c \<Longrightarrow> order_le ob a c" by (cases col) auto
qed

lemma select_rows_sorted:
  "sorted_wrt (\<lambda>a b. order_le ob (fst a) (fst b)) (select_rows conds ob limit offset d)"
proof -
  let ?le = "\<lambda>a b :: feedback \<times> category option. order_le ob (fst a) (fst b)"
  have "sorted_wrt ?le (sort_by ?le xs)" for xs
  proof (rule sorted_sort_by)
    show "?le a b \<or> ?le b a" for a b by (rule order_le_total)
    show "?le a b \<Longrightarrow> ?le b c \<Longrightarrow> ?le a c" for a b c by (rule order_le_trans)
  qed
  then show ?thesis
    unfolding select_rows_def by (intro sorted_wrt_take sorted_wrt_drop)
qed

lemma priority_text_order:
  "priority_text High < priority_text Low \<and> priority_text Low < priority_text Medium \<and>
   priority_text Medium < priority_text Urgent"
  by (simp add: less_char_def)


lemma GET_feedback_ok:
  assumes "GET_feedback e r d = Success 200 (items, pg)"
  shows "\<exists>q. feedbackQuerySchema (raw_query_of (req_query r)) = Some q \<and>
             list_feedback e (websiteId_of r) q d = Success 200 (items, pg)"
  using assms
  by (auto simp: GET_feedback_def Let_def split: if_splits option.splits)

lemma list_feedback_ok:
  assumes "list_feedback e ws q d = Success 200 (items, pg)"
  shows "items = map to_item (select_rows (conditions ws q d) (orderBy (q_sort q))
                                (q_limit q) (q_offset q) d) \<and>
         pg = \<lparr>pg_total = int (length (filter (all_hold (conditions ws q d)) (Feedback d))),
               pg_page = to_double (double_floor (double_quotient (q_offset q) (q_limit q)) + 1),
               pg_limit = q_limit q,
               pg_totalPages =
                 double_ceiling (double_quotient
                   (int (length (filter (all_hold (conditions ws q d)) (Feedback d))))
                   (q_limit q))\<rparr>"
  using assms
  by (auto simp: list_feedback_def Let_def split: if_splits)

lemma list_feedback_offset:
  assumes "list_feedback e ws q d = Success 200 (items, pg)"
  shows "int64 (q_offset q)"
  using assms
  by (auto simp: list_feedback_def Let_def split: if_splits)

lemma feedbackQuerySchema_Some:
  assumes "feedbackQuerySchema raw = Some q"
  shows "q_limit q = num_or (parseInt (rq_limit raw)) 10 \<and> 1 \<le> q_limit q \<and> q_limit q \<le> 100 \<and>
         q_offset q = num_or (parseInt (rq_offset raw)) 0 \<and> 0 \<le> q_offset q \<and>
         sort_of_text (rq_sort raw) = Some (q_sort q) \<and> q_category q = rq_category raw"
  using assms
  by (auto simp: feedbackQuerySchema_def Let_def split: option.splits if_splits)

lemma sorted_items:
  assumes "sorted_wrt (\<lambda>a b. order_le ob (fst a) (fst b)) rows"
    and "\<And>a b. order_le ob (fst a) (fst b) \<Longrightarrow> R (to_item a) (to_item b)"
  shows "sorted_wrt R (map to_item rows)"
proof -
  have "sorted_wrt (\<lambda>a b. R (to_item a) (to_item b)) rows"
    using sorted_wrt_mono_rel [of rows "\<lambda>a b. order_le ob (fst a) (fst b)"
        "\<lambda>a b. R (to_item a) (to_item b)"] assms
    by blast
  then show ?thesis by (simp add: sorted_wrt_map)
qed

text \<open>In getPublicFeedback the sort key \<open>oldest\<close> gives the listing of \<open>newest\<close>.\<close>

lemma getPublicFeedback_oldest:
  "getPublicFeedback i (options\<lparr>po_sort := Some Oldest\<rparr>) d =
   getPublicFeedback i (options\<lparr>po_sort := Some Newest\<rparr>) d"
  by (simp add: getPublicFeedback_def public_orderBy_def)

lemma left_join_row:
  assumes "distinct (map c_id cs)"
  shows "\<exists>c. (case filter (\<lambda>c. f_categoryId f = Some (c_id c)) cs of
                [] \<Rightarrow> [(f, None)]
              | ms \<Rightarrow> map (\<lambda>c. (f, Some c)) ms) = [(f, c)]"
proof (cases "f_categoryId f")
  case None
  then have "filter (\<lambda>c. f_categoryId f = Some (c_id c)) cs = []" by simp
  then show ?thesis by simp
next
  case (Some k)
  have "filter (\<lambda>c. f_categoryId f = Some (c_id c)) cs = filter (\<lambda>c. c_id c = k) cs"
    using Some by (auto intro!: filter_cong)
  moreover have "length (filter (\<lambda>c. c_id c = k) cs) \<le> 1"
    using assms by (rule distinct_key_filter)
  ultimately show ?thesis
    by (cases "filter (\<lambda>c. c_id c = k) cs") (auto split: list.splits)
qed

lemma left_join_fst:
  assumes "distinct (map c_id cs)"
  shows "map fst (left_join fs cs) = fs"
proof (induction fs)
  case Nil
  then show ?case by (simp add: left_join_def)
next
  case (Cons f fs)
  from left_join_row [OF assms, of f] obtain c where
    "(case filter (\<lambda>c. f_categoryId f = Some (c_id c)) cs of
                [] \<Rightarrow> [(f, None)]
              | ms \<Rightarrow> map (\<lambda>c. (f, Some c)) ms) = [(f, c)]"
    by blast
  then have "left_join (f # fs) cs = (f, c) # left_join fs cs"
    by (simp add: left_join_def)
  then show ?case using Cons by simp
qed

lemma length_filter_fst:
  "length (filter (\<lambda>row. P (fst row)) rows) = length (filter P (map fst rows))"
  by (induction rows) auto

lemma length_select_rows:
  assumes "distinct (map c_id (FeedbackCategories d))"
  shows "length (select_rows conds ob limit offset d) =
         min (nat limit) (length (filter (all_hold conds) (Feedback d)) - nat offset)"
  using left_join_fst [OF assms, of "Feedback d"]
  by (simp add: select_rows_def length_sort_by length_filter_fst)

lemma length_select_rows_le: "length (select_rows conds ob limit offset d) \<le> nat limit"
  by (simp add: select_rows_def)

lemma page_length:
  "1 \<le> l \<Longrightarrow> 0 \<le> k \<Longrightarrow> int (min (nat l) (n - nat k)) = min l (max 0 (int n - k))"
  by arith

lemma feedbackQuerySchema_category:
  "feedbackQuerySchema (raw\<lparr>rq_category := c\<rparr>) =
   map_option (\<lambda>q. q\<lparr>q_category := c\<rparr>) (feedbackQuerySchema raw)"
  by (simp add: feedbackQuerySchema_def Let_def split: option.splits)

lemma websiteId_of_query:
  "k \<noteq> ''websiteId'' \<Longrightarrow> websiteId_of (r\<lparr>req_query := (req_query r)(k := v)\<rparr>) = websiteId_of r"
  by (simp add: websiteId_of_def)

lemma raw_query_without_category:
  "raw_query_of ((sp)(''category'' := None)) = (raw_query_of sp)\<lparr>rq_category := None\<rparr>"
  by (simp add: raw_query_of_def or_null_def truthy_def)

lemma conditions_unresolved:
  assumes "truthy (q_category q) \<longrightarrow>
     resolve_category d ws (or_else (q_category q) []) = None"
  shows "conditions ws q d = conditions ws (q\<lparr>q_category := None\<rparr>) d"
  using assms by (simp add: conditions_def truthy_def)

lemma conditions_resolved:
  assumes "truthy (q_category q)"
    and "resolve_category d ws (or_else (q_category q) []) = Some c"
  shows "conditions ws q d = conditions ws (q\<lparr>q_category := None\<rparr>) d @ [EqCategoryId (c_id c)]"
  using assms by (simp add: conditions_def truthy_def)

lemma all_hold_conditions: "all_hold (conditions ws q d) = matches_filters ws q d"
  by (auto simp: fun_eq_iff all_hold_def conditions_def matches_filters_def resolve_category_def
        truthy_def or_else_def split: option.splits bool.splits)

lemma list_feedback_unresolved:
  assumes "truthy (q_category q)" and "ReadCategory \<notin> faults e"
    and "resolve_category d ws (or_else (q_category q) []) = None"
  shows "list_feedback e ws q d = list_feedback e ws (q\<lparr>q_category := None\<rparr>) d"
  using assms conditions_unresolved [of q d ws]
  by (simp add: list_feedback_def Let_def)

lemma set_sort_by: "set (sort_by le xs) = set xs"
  by (induction xs) (auto simp: sort_by_def set_insert_by)

lemma select_rows_hold:
  assumes "row \<in> set (select_rows conds ob limit offset d)"
  shows "all_hold conds (fst row)"
proof -
  from assms have "row \<in> set (sort_by (\<lambda>a b. order_le ob (fst a) (fst b))
         (filter (\<lambda>row. all_hold conds (fst row))
            (left_join (Feedback d) (FeedbackCategories d))))"
    unfolding select_rows_def by (meson in_set_dropD in_set_takeD)
  then show ?thesis by (simp add: set_sort_by)
qed

lemma all_hold_append: "all_hold (cs @ cs') f \<longleftrightarrow> all_hold cs f \<and> all_hold cs' f"
  by (simp add: all_hold_def)

lemma all_hold_category:
  "all_hold (cs @ [EqCategoryId k]) = (\<lambda>f. all_hold cs f \<and> f_categoryId f = Some k)"
  by (simp add: fun_eq_iff all_hold_def)

lemma parseInt_10: "parseInt ''10'' = Some 10"
  by (simp add: parse_defs)

lemma parseInt_0: "parseInt ''0'' = Some 0"
  by (simp add: parse_defs)

lemma feedbackQuerySchema_limit:
  "num_or (parseInt l1) 10 = num_or (parseInt l2) 10 \<Longrightarrow>
   feedbackQuerySchema (raw\<lparr>rq_limit := l1\<rparr>) = feedbackQuerySchema (raw\<lparr>rq_limit := l2\<rparr>)"
  by (simp add: feedbackQuerySchema_def Let_def split: option.splits)

lemma feedbackQuerySchema_offset:
  "num_or (parseInt o1) 0 = num_or (parseInt o2) 0 \<Longrightarrow>
   feedbackQuerySchema (raw\<lparr>rq_offset := o1\<rparr>) = feedbackQuerySchema (raw\<lparr>rq_offset := o2\<rparr>)"
  by (simp add: feedbackQuerySchema_def Let_def split: option.splits)

lemma raw_query_limit:
  "raw_query_of (sp(''limit'' \<mapsto> v)) = (raw_query_of sp)\<lparr>rq_limit := or_else (Some v) ''10''\<rparr>"
  by (simp add: raw_query_of_def)

lemma raw_query_offset:
  "raw_query_of (sp(''offset'' \<mapsto> v)) = (raw_query_of sp)\<lparr>rq_offset := or_else (Some v) ''0''\<rparr>"
  by (simp add: raw_query_of_def)

lemma limit_falls_back:
  assumes "parseInt s = None \<or> parseInt s = Some 0"
  shows "num_or (parseInt (or_else (Some s) ''10'')) 10 = 10"
  using assms by (auto simp: or_else_def num_or_def parseInt_10)

lemma offset_falls_back:
  assumes "parseInt s = None"
  shows "num_or (parseInt (or_else (Some s) ''0'')) 0 = 0"
  using assms by (auto simp: or_else_def num_or_def parseInt_0)

lemma GET_feedback_raw:
  assumes "websiteId_of r2 = websiteId_of r" and "req_headers r2 = req_headers r"
    and "feedbackQuerySchema (raw_query_of (req_query r2))
         = feedbackQuerySchema (raw_query_of (req_query r))"
  shows "GET_feedback e r2 d = GET_feedback e r d"
  unfolding GET_feedback_def assms by (rule refl)

section \<open>A submission and the ledger\<close>

lemma store_submission_db:
  assumes "store_submission e data ip ua d = (resp, d')"
  shows "(Feedback d' = Feedback d \<or> Feedback d' = Feedback d @ [new_feedback e data ip ua d]) \<and>
         FeedbackVotes d' = FeedbackVotes d"
  using assms by (auto simp: store_submission_def Let_def split: if_splits)

lemma POST_feedback_db:
  assumes "POST_feedback e r d = (resp, d')"
  shows "(Feedback d' = Feedback d \<or>
          (\<exists>data ip ua. Feedback d' = Feedback d @ [new_feedback e data ip ua d])) \<and>
         FeedbackVotes d' = FeedbackVotes d"
proof (cases "admit_submission e r d")
  case (Inl a)
  then show ?thesis using assms by (simp add: POST_feedback_def)
next
  case (Inr p)
  obtain data w where p: "p = (data, w)" by (cases p)
  let ?ip = "fst (getClientInfo (req_headers r))"
  let ?ua = "snd (getClientInfo (req_headers r))"
  have "d' = d \<or> store_submission e data ?ip ?ua d = (resp, d')"
    using assms Inr p
    by (auto simp: POST_feedback_def submit_def Let_def split: option.splits if_splits)
  then show ?thesis using store_submission_db [of e data ?ip ?ua d resp d'] by blast
qed

text \<open>
  A submission keeps the counters consistent: the new item starts at 0/0, and no vote row
  refers to its fresh id when every vote row refers to an existing item.
\<close>

lemma POST_feedback_consistent:
  assumes cons: "ledger_consistent d"
    and fk: "\<forall>v \<in> set (FeedbackVotes d). v_feedbackId v \<in> f_id ` set (Feedback d)"
    and run: "POST_feedback e r d = (resp, d')"
  shows "ledger_consistent d'"
proof -
  from POST_feedback_db [OF run] have votes: "FeedbackVotes d' = FeedbackVotes d"
    and rows: "Feedback d' = Feedback d \<or>
          (\<exists>data ip ua. Feedback d' = Feedback d @ [new_feedback e data ip ua d])"
    by simp_all
  have fresh: "count_votes (next_id (map f_id (Feedback d))) t (FeedbackVotes d) = 0" for t
  proof -
    have "v_feedbackId v \<noteq> next_id (map f_id (Feedback d))" if "v \<in> set (FeedbackVotes d)" for v
    proof -
      from fk that have "v_feedbackId v \<in> set (map f_id (Feedback d))" by simp
      from next_id_fresh [OF this] show ?thesis by simp
    qed
    then show ?thesis by (simp add: count_votes_def filter_empty_conv)
  qed
  from rows show ?thesis
  proof
    assume "Feedback d' = Feedback d"
    then show ?thesis using cons votes by (simp add: ledger_consistent_def)
  next
    assume "\<exists>data ip ua. Feedback d' = Feedback d @ [new_feedback e data ip ua d]"
    then obtain data ip ua where "Feedback d' = Feedback d @ [new_feedback e data ip ua d]"
      by blast
    then show ?thesis using cons votes fresh
      by (auto simp: ledger_consistent_def new_feedback_def)
  qed
qed

section \<open>Counter-ledger consistency\<close>

text \<open>
  Claim C1. Start from a store in which every feedback item's counters equal the numbers of
  its vote rows of each type and vote ids are a primary key. After any sequence of castVote
  and removeVote requests that all completed (none ended in the 500 envelope), every item's
  \<open>upvotes\<close> is the number of its \<open>up\<close> rows, its \<open>downvotes\<close> the number of its
  \<open>down\<close> rows, and both are non-negative.
\<close>

theorem counter_ledger_consistency:
  assumes "ledger_consistent d" and "vote_ids_unique d" and "completed_run ops d = Some d'"
    and "f \<in> set (Feedback d')"
  shows "f_upvotes f = int (count_votes (f_id f) Up (FeedbackVotes d')) \<and>
         f_downvotes f = int (count_votes (f_id f) Down (FeedbackVotes d')) \<and>
         0 \<le> f_upvotes f \<and> 0 \<le> f_downvotes f"
proof -
  have "ledger_consistent d'" using completed_run_consistent [OF assms(1-3)] by simp
  then show ?thesis using assms(4) by (simp add: ledger_consistent_def)
qed

theorem counter_ledger_consistency_witness:
  "ledger_consistent example_db \<and> vote_ids_unique example_db \<and>
   completed_run example_ops example_db = Some example_voted \<and>
   (example_item 1 Medium 1000 0 1)\<lparr>f_updatedAt := 5000\<rparr> \<in> set (Feedback example_voted) \<and>
   0 = int (count_votes 1 Up (FeedbackVotes example_voted)) \<and>
   1 = int (count_votes 1 Down (FeedbackVotes example_voted))"
proof -
  have c: "ledger_consistent example_db"
    by (simp add: example_defs ledger_consistent_def count_votes_def)
  have i: "vote_ids_unique example_db"
    by (simp add: example_defs vote_ids_unique_def)
  have r: "completed_run example_ops example_db = Some example_voted"
    by (simp add: example_defs vote_defs parse_defs Let_def)
  have m: "(example_item 1 Medium 1000 0 1)\<lparr>f_updatedAt := 5000\<rparr> \<in> set (Feedback example_voted)"
    by (simp add: example_defs)
  show ?thesis
    using c i r m counter_ledger_consistency [OF c i r m]
    by (simp add: example_item_def)
qed

section \<open>The two writes of a cast\<close>

text \<open>
  Claim C2, as amended. A cast is not one transaction: it writes the vote row, then, in a
  second statement, the counters. Whenever a vote-row mutation is due (the run without
  storage failures changes the vote table): if the lookup or the vote-row write fails, the
  answer is the 500 envelope and nothing is stored; if the counter write fails, the answer is
  the 500 envelope and the store keeps the inserted or flipped vote row with the counters as
  they were; and if neither write fails, the store is the one of the complete run.
\<close>

theorem castVote_separate_writes:
  "((ReadVote \<in> faults e \<or> WriteVote \<in> faults e) \<and>
      FeedbackVotes (snd (castVote (e\<lparr>faults := {}\<rparr>) i vd fb ip d)) \<noteq> FeedbackVotes d \<longrightarrow>
      castVote e i vd fb ip d = (internal_error, d)) \<and>
   (ReadVote \<notin> faults e \<and> WriteVote \<notin> faults e \<and> WriteCounters \<in> faults e \<and>
      FeedbackVotes (snd (castVote (e\<lparr>faults := {}\<rparr>) i vd fb ip d)) \<noteq> FeedbackVotes d \<longrightarrow>
      castVote e i vd fb ip d =
        (internal_error,
         d\<lparr>FeedbackVotes := FeedbackVotes (snd (castVote (e\<lparr>faults := {}\<rparr>) i vd fb ip d))\<rparr>)) \<and>
   (ReadVote \<notin> faults e \<and> WriteVote \<notin> faults e \<and> WriteCounters \<notin> faults e \<longrightarrow>
      snd (castVote e i vd fb ip d) = snd (castVote (e\<lparr>faults := {}\<rparr>) i vd fb ip d))"
proof (cases "find (voter_cond i (vd_voterEmail vd) ip) (FeedbackVotes d)")
  case None
  show ?thesis using castVote_separate_new [OF None, of e fb] by blast
next
  case (Some x)
  show ?thesis
  proof (cases "v_voteType x = vd_voteType vd")
    case True
    show ?thesis
      using castVote_separate_same [OF Some True, of e fb]
        castVote_separate_same [OF Some True, of "e\<lparr>faults := {}\<rparr>" fb]
      by simp
  next
    case False
    show ?thesis using castVote_separate_flip [OF Some False, of e fb] by blast
  qed
qed

theorem castVote_separate_writes_witness:
  "castVote (example_env {WriteVote}) 1 \<lparr>vd_voteType = Up, vd_voterEmail = Some ''a@x.org''\<rparr>
      (example_item 1 Medium 1000 0 0) ''10.0.0.1'' example_db
     = (internal_error, example_db) \<and>
   castVote (example_env {WriteCounters}) 1 \<lparr>vd_voteType = Up, vd_voterEmail = Some ''a@x.org''\<rparr>
      (example_item 1 Medium 1000 0 0) ''10.0.0.1'' example_db
     = (internal_error, example_half_written) \<and>
   snd (castVote (example_env {ReadCounters}) 1 \<lparr>vd_voteType = Up, vd_voterEmail = Some ''a@x.org''\<rparr>
      (example_item 1 Medium 1000 0 0) ''10.0.0.1'' example_db)
     = example_up"
proof -
  let ?vd = "\<lparr>vd_voteType = Up, vd_voterEmail = Some ''a@x.org''\<rparr>"
  let ?fb = "example_item 1 Medium 1000 0 0"
  have full: "castVote ((example_env fs)\<lparr>faults := {}\<rparr>) 1 ?vd ?fb ''10.0.0.1'' example_db
      = (Success 200 (1, 0), example_up)" for fs
    by (simp add: example_defs vote_defs Let_def)
  have due: "FeedbackVotes example_up \<noteq> FeedbackVotes example_db"
    by (simp add: example_defs)
  have half: "example_db\<lparr>FeedbackVotes := FeedbackVotes example_up\<rparr> = example_half_written"
    by (simp add: example_defs)
  have a: "(ReadVote \<in> faults (example_env {WriteVote}) \<or> WriteVote \<in> faults (example_env {WriteVote}))"
    and b: "ReadVote \<notin> faults (example_env {WriteCounters}) \<and>
            WriteVote \<notin> faults (example_env {WriteCounters}) \<and>
            WriteCounters \<in> faults (example_env {WriteCounters})"
    and c: "ReadVote \<notin> faults (example_env {ReadCounters}) \<and>
            WriteVote \<notin> faults (example_env {ReadCounters}) \<and>
            WriteCounters \<notin> faults (example_env {ReadCounters})"
    by (simp_all add: example_env_def)
  show ?thesis
    using castVote_separate_writes [of "example_env {WriteVote}" 1 ?vd ?fb "''10.0.0.1''" example_db]
      castVote_separate_writes [of "example_env {WriteCounters}" 1 ?vd ?fb "''10.0.0.1''" example_db]
      castVote_separate_writes [of "example_env {ReadCounters}" 1 ?vd ?fb "''10.0.0.1''" example_db]
      a b c due half
    by (simp add: full)
qed

text \<open>
  The claim as stated fails when the counter write throws: the answer is 500, the vote row is
  stored, the feedback table is untouched, and the counters no longer match the rows.
\<close>

theorem castVote_atomic_counterexample:
  "POST_vote (example_env {WriteCounters}) (vote_request ''10.0.0.1'' ''up'' (Some ''a@x.org''))
     example_db = (internal_error, example_half_written) \<and>
   Feedback example_half_written = Feedback example_db \<and>
   FeedbackVotes example_half_written \<noteq> FeedbackVotes example_db \<and>
   \<not> ledger_consistent example_half_written"
  by (simp add: example_defs vote_defs parse_defs Let_def
        ledger_consistent_def count_votes_def)

section \<open>Identity fields of a vote row\<close>

text \<open>
  Claim C3, as amended. The claim that a stored row never carries both an email and an IP
  fails: \<^verbatim>\<open>voterIp\<close> is a required column and the insert always fills it. What holds:
  after a cast, every row of the table either is a row of the table before with the same id,
  feedback id, email and IP (a flip changes the vote type only), or it records the caller's
  source IP in \<^verbatim>\<open>voterIp\<close> and the supplied email, or NULL when there is none, in
  \<^verbatim>\<open>voterEmail\<close>. Only the lookup key is exclusive (\<open>voter_cond\<close>).
\<close>

theorem vote_row_identity:
  assumes "POST_vote e r d = (resp, d')" and "v' \<in> set (FeedbackVotes d')"
  shows "(\<exists>v \<in> set (FeedbackVotes d). v_id v = v_id v' \<and> v_feedbackId v = v_feedbackId v' \<and>
            v_voterEmail v = v_voterEmail v' \<and> v_voterIp v = v_voterIp v') \<or>
         (v_voterIp v' = fst (getClientInfo (req_headers r)) \<and>
          (\<exists>b. req_body r = Some b \<and> v_voterEmail v' = or_null (vb_voterEmail b)))"
proof -
  from POST_vote_cases [OF assms(1)] consider "d' = d"
    | b vd fb where "req_body r = Some b" "voteSchema e b = Some vd"
       "castVote e (num_or (parseInt (req_id r)) 0) vd fb (fst (getClientInfo (req_headers r))) d
         = (resp, d')"
    by blast
  then show ?thesis
  proof cases
    case 1
    then show ?thesis using assms(2) by auto
  next
    case 2
    show ?thesis
      using castVote_row_identity [OF 2(3) assms(2)] 2(1) voteSchema_email [OF 2(2)] by auto
  qed
qed

theorem vote_row_identity_witness:
  "POST_vote (example_env {}) (vote_request ''10.0.0.1'' ''down'' (Some ''a@x.org'')) example_db
     = (Success 200 (0, 1), example_voted) \<and>
   \<lparr>v_id = 1, v_feedbackId = 1, v_voterEmail = Some ''a@x.org'', v_voterIp = ''10.0.0.1'',
      v_voteType = Down, v_createdAt = 5000\<rparr> \<in> set (FeedbackVotes example_voted) \<and>
   fst (getClientInfo (req_headers (vote_request ''10.0.0.1'' ''down'' (Some ''a@x.org''))))
     = ''10.0.0.1'' \<and>
   or_null (Some ''a@x.org'') = Some ''a@x.org''"
proof -
  let ?r = "vote_request ''10.0.0.1'' ''down'' (Some ''a@x.org'')"
  let ?v = "\<lparr>v_id = 1, v_feedbackId = 1, v_voterEmail = Some ''a@x.org'', v_voterIp = ''10.0.0.1'',
      v_voteType = Down, v_createdAt = 5000\<rparr>"
  have f: "POST_vote (example_env {}) ?r example_db = (Success 200 (0, 1), example_voted)"
    by (simp add: example_defs vote_defs parse_defs Let_def)
  have m: "?v \<in> set (FeedbackVotes example_voted)"
    by (simp add: example_defs)
  show ?thesis
    using f m vote_row_identity [OF f m]
    by (simp add: example_defs getClientInfo_def or_else_def or_null_def truthy_def)
qed

text \<open>
  The claim as stated fails on a cast with an email: the one row stored has the email and the
  caller's IP.
\<close>

theorem vote_row_single_identity_counterexample:
  "FeedbackVotes (snd (POST_vote (example_env {})
       (vote_request ''10.0.0.1'' ''up'' (Some ''a@x.org'')) example_db))
   = [\<lparr>v_id = 1, v_feedbackId = 1, v_voterEmail = Some ''a@x.org'', v_voterIp = ''10.0.0.1'',
        v_voteType = Up, v_createdAt = 5000\<rparr>]"
  by (simp add: example_defs vote_defs parse_defs Let_def)

section \<open>The analytics event of a submission\<close>

text \<open>
  Claim C4. The claim is that a failing insert of the \<open>feedback_submitted\<close> event does not
  fail the submission. The handler awaits that insert inside its one
  \<^verbatim>\<open>try\<close> block, so on the input below, a valid submission whose analytics insert
  throws, it answers 500 although the feedback row is stored. \<open>logAnalyticsEvent\<close>, the
  helper of the same repository for this insert, swallows the failure; the handler does not
  call it.
\<close>

theorem analytics_failure_fails_submission:
  "POST_feedback (example_env {InsertAnalytics}) (submission_request ''10.0.0.9'') example_db
   = (Failure 500 ''Internal server error'',
      example_db\<lparr>Feedback := Feedback example_db @
        [(example_item 2 Medium 5000 0 0)\<lparr>f_ipAddress := Some ''10.0.0.9''\<rparr>]\<rparr>)"
  by (simp add: example_defs example_defs2 submit_defs Let_def)

section \<open>Vote idempotence\<close>

text \<open>
  Claim C5. When a cast has answered 200, casting the same vote again (same request, any later
  clock) stores nothing: the store, and with it the item's counters, is exactly what the first
  cast left; without storage failures the repeat answers 200 with the same counters; and the
  table holds exactly one row for that item and voter. The unique indexes of the table are
  assumed of the store before the first cast.
\<close>

theorem vote_idempotence:
  assumes uniq: "votes_unique (FeedbackVotes d)"
    and first: "POST_vote e r d = (Success 200 c, d1)"
    and email: "is_email e2 = is_email e"
  shows "snd (POST_vote e2 r d1) = d1 \<and>
         (faults e2 = {} \<longrightarrow> fst (POST_vote e2 r d1) = Success 200 c) \<and>
         length (voter_rows r (FeedbackVotes d1)) = 1"
proof -
  let ?i = "num_or (parseInt (req_id r)) 0"
  let ?ip = "fst (getClientInfo (req_headers r))"
  from POST_vote_cases [OF first] obtain b vd fb where
    b: "req_body r = Some b" and vd: "voteSchema e b = Some vd" and i: "?i \<noteq> 0"
    and l: "load_feedback e r ?i d = Inr fb"
    and c: "castVote e ?i vd fb ?ip d = (Success 200 c, d1)"
    by auto
  have ok: "status (Success 200 c :: (int \<times> int) response) \<noteq> 500" by simp
  have vd2: "voteSchema e2 b = Some vd" using vd voteSchema_cong [OF email] by simp
  from castVote_leaves_vote [OF c ok] obtain x where
    x: "find (voter_cond ?i (vd_voterEmail vd) ?ip) (FeedbackVotes d1) = Some x"
       "v_voteType x = vd_voteType vd"
    by auto
  have same: "\<And>fb2 r2 d2. castVote e2 ?i vd fb2 ?ip d1 = (r2, d2) \<Longrightarrow> d2 = d1"
    using castVote_same_db [OF x] by blast
  have unchanged: "snd (POST_vote e2 r d1) = d1"
  proof -
    obtain r2 d2 where p: "POST_vote e2 r d1 = (r2, d2)" by (cases "POST_vote e2 r d1")
    from POST_vote_cases [OF p] have "d2 = d1" using same b vd2 by auto
    then show ?thesis using p by simp
  qed
  have answer: "fst (POST_vote e2 r d1) = Success 200 c" if nf: "faults e2 = {}"
  proof -
    from load_feedback_frame [OF _ _ l nf, of d1] castVote_frame [OF c]
    obtain fb1 where l1: "load_feedback e2 r ?i d1 = Inr fb1" by auto
    have "POST_vote e2 r d1 = castVote e2 ?i vd fb1 ?ip d1"
      using b vd2 i l1 by (simp add: POST_vote_def)
    also have "\<dots> = vote_result e2 ?i d1"
      using castVote_same [OF x] nf by simp
    also have "\<dots> = (Success 200 c, d1)"
      using vote_result_faults [OF castVote_result [OF c ok]] nf by simp
    finally show ?thesis by simp
  qed
  have "length (voter_rows r (FeedbackVotes d1)) = 1"
    using castVote_one_row [OF c ok uniq] b voteSchema_email [OF vd]
    by (simp add: voter_rows_def)
  then show ?thesis using unchanged answer by simp
qed

theorem vote_idempotence_witness:
  "votes_unique (FeedbackVotes example_db) \<and>
   POST_vote (example_env {}) (vote_request ''10.0.0.1'' ''up'' (Some ''a@x.org'')) example_db
     = (Success 200 (1, 0), example_up) \<and>
   POST_vote ((example_env {})\<lparr>now := 9000\<rparr>)
       (vote_request ''10.0.0.1'' ''up'' (Some ''a@x.org'')) example_up
     = (Success 200 (1, 0), example_up) \<and>
   length (voter_rows (vote_request ''10.0.0.1'' ''up'' (Some ''a@x.org''))
             (FeedbackVotes example_up)) = 1"
proof -
  let ?r = "vote_request ''10.0.0.1'' ''up'' (Some ''a@x.org'')"
  have u: "votes_unique (FeedbackVotes example_db)"
    by (simp add: example_defs votes_unique_def)
  have f: "POST_vote (example_env {}) ?r example_db = (Success 200 (1, 0), example_up)"
    by (simp add: example_defs vote_defs parse_defs Let_def)
  have m: "is_email ((example_env {})\<lparr>now := 9000\<rparr>) = is_email (example_env {})"
    by (simp add: example_env_def)
  have n: "faults ((example_env {})\<lparr>now := 9000\<rparr>) = {}"
    by (simp add: example_env_def)
  show ?thesis
    using u f n vote_idempotence [OF u f m]
    by (simp add: prod_eq_iff)
qed

section \<open>Rate limit boundary\<close>

text \<open>
  Claim C6. The claim is that a submission from an IP with at least \<open>m\<close> rows inside the
  trailing window of \<open>w\<close> minutes is answered 429 without an insert, and that a submission
  from that IP after the window has elapsed succeeds. The handler counts the rows whose
  \<^verbatim>\<open>createdAt\<close> is greater than the start of the window, but hands the start of the
  window to the store as a number of milliseconds, where the column holds the text of a
  date: the store compares \<^verbatim>\<open>1793617200000.0\<close> with
  \<^verbatim>\<open>2026-01-01 00:00:00\<close> as texts, and the date is the greater one whatever its
  age. On the input below the website allows 3 submissions per 60 minutes, the clock reads
  2026-11-02 12:00:00, and the three rows of the IP were created on 2026-01-01, ten months
  before the window: the answer is 429 and nothing is stored, where the claim has 201.
\<close>

theorem rate_limit_counts_elapsed_rows:
  "POST_feedback ((example_env {})\<lparr>now := 1793620800000, db_now := 1793620800\<rparr>)
      (submission_request ''10.0.0.1'')
      (example_rows 1767225600000 1767229200000 1767232800000)
   = (Failure 429 ''Rate limit exceeded. Please try again later.'',
      example_rows 1767225600000 1767229200000 1767232800000) \<and>
   datetime_text 1767232800000 = ''2026-01-01 02:00:00'' \<and>
   datetime_text (1793620800000 - 60 * 60 * 1000) = ''2026-11-02 11:00:00'' \<and>
   real_text (1793620800000 - 60 * 60 * 1000) = ''1793617200000.0''"
proof -
  have t: "real_text 1793617200000 < datetime_text 1767225600000"
    "real_text 1793617200000 < datetime_text 1767229200000"
    "real_text 1793617200000 < datetime_text 1767232800000"
    by code_simp+
  have p: "POST_feedback ((example_env {})\<lparr>now := 1793620800000, db_now := 1793620800\<rparr>)
      (submission_request ''10.0.0.1'')
      (example_rows 1767225600000 1767229200000 1767232800000)
   = (Failure 429 ''Rate limit exceeded. Please try again later.'',
      example_rows 1767225600000 1767229200000 1767232800000)"
    using t by (simp add: example_defs example_defs2 submit_defs Let_def)
  have d: "datetime_text 1767232800000 = ''2026-01-01 02:00:00''"
    "datetime_text (1793620800000 - 60 * 60 * 1000) = ''2026-11-02 11:00:00''"
    "real_text (1793620800000 - 60 * 60 * 1000) = ''1793617200000.0''"
    by code_simp+
  show ?thesis using p d by simp
qed

section \<open>Order of a listing\<close>

text \<open>
  Claim C7, as amended. A successful GET /api/feedback returns its page ordered by creation
  time ascending for the sort key \<open>oldest\<close>, by creation time descending for \<open>newest\<close> (also
  when no key is given), by upvotes descending for \<open>upvotes\<close>, and for \<open>priority\<close> by the
  priority's text descending, that is urgent, medium, low, high; not by the position of the
  priority in its enum.
\<close>

theorem listing_order:
  assumes "GET_feedback e r d = Success 200 (items, pg)"
  shows "(or_else (req_query r ''sort'') ''newest'' = ''oldest'' \<longrightarrow>
            sorted_wrt (\<lambda>a b. fi_createdAt a \<le> fi_createdAt b) items) \<and>
         (or_else (req_query r ''sort'') ''newest'' = ''newest'' \<longrightarrow>
            sorted_wrt (\<lambda>a b. fi_createdAt b \<le> fi_createdAt a) items) \<and>
         (or_else (req_query r ''sort'') ''newest'' = ''upvotes'' \<longrightarrow>
            sorted_wrt (\<lambda>a b. fi_upvotes b \<le> fi_upvotes a) items) \<and>
         (or_else (req_query r ''sort'') ''newest'' = ''priority'' \<longrightarrow>
            sorted_wrt (\<lambda>a b. priority_text (fi_priority b) \<le> priority_text (fi_priority a))
              items) \<and>
         priority_text High < priority_text Low \<and> priority_text Low < priority_text Medium \<and>
         priority_text Medium < priority_text Urgent"
proof -
  from GET_feedback_ok [OF assms] obtain q where
    q: "feedbackQuerySchema (raw_query_of (req_query r)) = Some q"
    and l: "list_feedback e (websiteId_of r) q d = Success 200 (items, pg)"
    by blast
  let ?rows = "select_rows (conditions (websiteId_of r) q d) (orderBy (q_sort q))
                 (q_limit q) (q_offset q) d"
  have items: "items = map to_item ?rows" using list_feedback_ok [OF l] by simp
  have sorted: "sorted_wrt (\<lambda>a b. order_le (orderBy (q_sort q)) (fst a) (fst b)) ?rows"
    by (rule select_rows_sorted)
  have key: "sort_of_text (or_else (req_query r ''sort'') ''newest'') = Some (q_sort q)"
    using feedbackQuerySchema_Some [OF q] by (simp add: raw_query_of_def)
  have "sorted_wrt (\<lambda>a b. fi_createdAt a \<le> fi_createdAt b) items"
    if "or_else (req_query r ''sort'') ''newest'' = ''oldest''"
  proof -
    have "q_sort q = Oldest" using key that by (simp add: sort_of_text_def)
    then show ?thesis unfolding items using sorted
      by (intro sorted_items [where ob = "Asc CreatedAt"])
         (auto simp: orderBy_def to_item_def split: prod.splits)
  qed
  moreover have "sorted_wrt (\<lambda>a b. fi_createdAt b \<le> fi_createdAt a) items"
    if "or_else (req_query r ''sort'') ''newest'' = ''newest''"
  proof -
    have "q_sort q = Newest" using key that by (simp add: sort_of_text_def)
    then show ?thesis unfolding items using sorted
      by (intro sorted_items [where ob = "Desc CreatedAt"])
         (auto simp: orderBy_def to_item_def split: prod.splits)
  qed
  moreover have "sorted_wrt (\<lambda>a b. fi_upvotes b \<le> fi_upvotes a) items"
    if "or_else (req_query r ''sort'') ''newest'' = ''upvotes''"
  proof -
    have "q_sort q = ByUpvotes" using key that by (simp add: sort_of_text_def)
    then show ?thesis unfolding items using sorted
      by (intro sorted_items [where ob = "Desc Upvotes"])
         (auto simp: orderBy_def to_item_def split: prod.splits)
  qed
  moreover have "sorted_wrt (\<lambda>a b. priority_text (fi_priority b) \<le> priority_text (fi_priority a)) items"
    if "or_else (req_query r ''sort'') ''newest'' = ''priority''"
  proof -
    have "q_sort q = ByPriority" using key that by (simp add: sort_of_text_def)
    then show ?thesis unfolding items using sorted
      by (intro sorted_items [where ob = "Desc Priority"])
         (auto simp: orderBy_def to_item_def split: prod.splits)
  qed
  ultimately show ?thesis using priority_text_order by blast
qed

theorem listing_order_witness:
  "GET_feedback (example_env {}) (list_request [(''websiteId'', ''1''), (''sort'', ''priority'')])
      example_list_db
   = Success 200
       (map to_item [(example_item 3 Urgent 3000 1 0, None), (example_item 2 Low 2000 5 0, None),
                     (example_item 1 High 1000 2 0, None)],
        \<lparr>pg_total = 3, pg_page = 1, pg_limit = 10, pg_totalPages = 1\<rparr>) \<and>
   sorted_wrt (\<lambda>a b. priority_text (fi_priority b) \<le> priority_text (fi_priority a))
     (map to_item [(example_item 3 Urgent 3000 1 0, None), (example_item 2 Low 2000 5 0, None),
                   (example_item 1 High 1000 2 0, None)])"
proof -
  have g: "GET_feedback (example_env {})
      (list_request [(''websiteId'', ''1''), (''sort'', ''priority'')]) example_list_db
   = Success 200
       (map to_item [(example_item 3 Urgent 3000 1 0, None), (example_item 2 Low 2000 5 0, None),
                     (example_item 1 High 1000 2 0, None)],
        \<lparr>pg_total = 3, pg_page = 1, pg_limit = 10, pg_totalPages = 1\<rparr>)"
    by (simp add: example_defs example_defs3 list_defs parse_defs Let_def less_eq_char_def)
  have k: "or_else (req_query (list_request [(''websiteId'', ''1''), (''sort'', ''priority'')])
             ''sort'') ''newest'' = ''priority''"
    by (simp add: list_request_def or_else_def)
  show ?thesis
    using g k listing_order [OF g] by simp
qed

text \<open>
  The claim as stated fails for \<open>priority\<close>: a low item is listed before a high one, against
  the order of the enum.
\<close>

theorem listing_priority_rank_counterexample:
  "map fi_priority (listed (GET_feedback (example_env {})
      (list_request [(''websiteId'', ''1''), (''sort'', ''priority'')]) example_list_db))
   = [Urgent, Low, High] \<and>
   priority_rank Low < priority_rank High"
  by (simp add: example_defs example_defs3 list_defs parse_defs Let_def less_eq_char_def)

section \<open>Pagination exactness\<close>

text \<open>
  Claim C8, as amended. For a successful list request with parsed query \<open>q\<close> whose offset
  is below 2^53, on a table of fewer than 2^53 rows (and category ids a primary key): the
  reported total is the number of feedback rows of the whole table that belong to the
  website and pass every filter of the request (status, type, the public flag, and the
  category when its slug resolves); \<open>page\<close> is \<open>floor(offset/limit) + 1\<close>; \<open>totalPages\<close>
  is \<open>ceil(total/limit)\<close>; and the page holds \<open>min(limit, max(0, total - offset))\<close>
  items. The witness is the case of the claim on a table that also holds rows of another
  website, another status and another type: 25 matching items, limit 10, offset 20 give 5
  items, page 3 of 3.
\<close>

theorem pagination_exactness:
  assumes "GET_feedback e r d = Success 200 (items, pg)"
    and "feedbackQuerySchema (raw_query_of (req_query r)) = Some q"
    and "distinct (map c_id (FeedbackCategories d))"
    and "q_offset q < 2 ^ 53" and "int (length (Feedback d)) < 2 ^ 53"
  shows "pg_total pg =
           int (length (filter (matches_filters (websiteId_of r) q d) (Feedback d))) \<and>
         pg_limit pg = q_limit q \<and>
         pg_page pg = \<lfloor>real_of_int (q_offset q) / real_of_int (q_limit q)\<rfloor> + 1 \<and>
         pg_totalPages pg = \<lceil>real_of_int (pg_total pg) / real_of_int (q_limit q)\<rceil> \<and>
         int (length items) = min (q_limit q) (max 0 (pg_total pg - q_offset q))"
proof -
  from GET_feedback_ok [OF assms(1)] assms(2)
  have l: "list_feedback e (websiteId_of r) q d = Success 200 (items, pg)" by auto
  note ok = list_feedback_ok [OF l]
  let ?total = "int (length (filter (all_hold (conditions (websiteId_of r) q d)) (Feedback d)))"
  have bounds: "1 \<le> q_limit q" "0 \<le> q_offset q"
    using feedbackQuerySchema_Some [OF assms(2)] by simp_all
  have off: "q_offset q < 9007199254740992" using assms(4) by simp
  have "int (length (Feedback d)) < 9007199254740992" using assms(5) by simp
  moreover have "length (filter (all_hold (conditions (websiteId_of r) q d)) (Feedback d))
      \<le> length (Feedback d)" by (rule length_filter_le)
  ultimately have tot: "?total < 9007199254740992" by linarith
  have total: "pg_total pg = ?total" using ok by simp
  have m: "?total = int (length (filter (matches_filters (websiteId_of r) q d) (Feedback d)))"
    by (simp add: all_hold_conditions)
  have "double_floor (double_quotient (q_offset q) (q_limit q)) = q_offset q div q_limit q"
    using bounds off by (intro double_floor_exact) simp_all
  moreover have "q_offset q div q_limit q \<le> q_offset q"
    using zdiv_mono2 [of "q_offset q" 1 "q_limit q"] bounds by simp
  moreover have "0 \<le> q_offset q div q_limit q"
    using bounds by (simp add: pos_imp_zdiv_nonneg_iff)
  ultimately have "pg_page pg = q_offset q div q_limit q + 1"
    using ok off by (simp add: to_double_exact)
  then have page: "pg_page pg = \<lfloor>real_of_int (q_offset q) / real_of_int (q_limit q)\<rfloor> + 1"
    by (simp add: floor_divide_of_int_eq)
  have tp: "pg_totalPages pg = - ((- ?total) div q_limit q)"
    using ok bounds tot by (simp add: double_ceiling_exact)
  have ce: "\<lceil>real_of_int ?total / real_of_int (q_limit q)\<rceil> = - ((- ?total) div q_limit q)"
    by (rule ceiling_divide_eq_div)
  have pages: "pg_totalPages pg = \<lceil>real_of_int (pg_total pg) / real_of_int (q_limit q)\<rceil>"
    unfolding total using tp ce by (simp only:)
  have "length items =
      min (nat (q_limit q))
        (length (filter (all_hold (conditions (websiteId_of r) q d)) (Feedback d)) - nat (q_offset q))"
    using ok length_select_rows [OF assms(3)] by simp
  then have "int (length items) = min (q_limit q) (max 0 (pg_total pg - q_offset q))"
    using ok page_length [OF bounds] by simp
  then show ?thesis using ok total m page pages by simp
qed

theorem pagination_exactness_witness:
  "GET_feedback (example_env {})
     (list_request [(''websiteId'', ''1''), (''status'', ''new''), (''type'', ''bug''),
                    (''limit'', ''10''), (''offset'', ''20'')]) example_mixed
   = Success 200
       (map to_item (select_rows [EqWebsiteId 1, EqStatus New, EqType Bug] (Desc CreatedAt)
                       10 20 example_mixed),
        \<lparr>pg_total = 25, pg_page = 3, pg_limit = 10, pg_totalPages = 3\<rparr>) \<and>
   length (Feedback example_mixed) = 28 \<and>
   length (filter (matches_filters 1
       \<lparr>q_status = Some New, q_type = Some Bug, q_category = None, q_limit = 10, q_offset = 20,
        q_sort = Newest, q_public = None\<rparr> example_mixed) (Feedback example_mixed)) = 25 \<and>
   length (map to_item (select_rows [EqWebsiteId 1, EqStatus New, EqType Bug] (Desc CreatedAt)
                          10 20 example_mixed)) = 5"
proof -
  let ?r = "list_request [(''websiteId'', ''1''), (''status'', ''new''), (''type'', ''bug''),
                          (''limit'', ''10''), (''offset'', ''20'')]"
  let ?q = "\<lparr>q_status = Some New, q_type = Some Bug, q_category = None, q_limit = 10,
             q_offset = 20, q_sort = Newest, q_public = None\<rparr>"
  have t: "length (filter (all_hold [EqWebsiteId 1, EqStatus New, EqType Bug])
             (Feedback example_mixed)) = 25"
    by (simp add: example_defs example_defs3 example_mixed_def all_hold_def filter_map o_def)
  have n: "length (Feedback example_mixed) = 28"
    by (simp add: example_defs example_mixed_def)
  have g: "GET_feedback (example_env {}) ?r example_mixed
   = Success 200
       (map to_item (select_rows [EqWebsiteId 1, EqStatus New, EqType Bug] (Desc CreatedAt)
                       10 20 example_mixed),
        \<lparr>pg_total = 25, pg_page = 3, pg_limit = 10, pg_totalPages = 3\<rparr>)"
    using t by (simp add: example_site_def example_db_def example_env_def example_mixed_def
        example_defs3 admit_list_defs fb_status_of_text_def fb_type_of_text_def parse_defs
        page_defs Let_def)
  have q: "feedbackQuerySchema (raw_query_of (req_query ?r)) = Some ?q"
    by (simp add: example_defs3 admit_list_defs fb_status_of_text_def fb_type_of_text_def
        parse_defs Let_def)
  have w: "websiteId_of ?r = 1"
    by (simp add: list_request_def websiteId_of_def parse_defs or_else_def)
  have c: "distinct (map c_id (FeedbackCategories example_mixed))"
    by (simp add: example_defs example_mixed_def)
  show ?thesis
    using g n pagination_exactness [OF g q c] by (simp add: w)
qed

text \<open>
  The claim as stated fails beyond 2^53, where the numbers of the handler are doubles: the
  offset 9007199254740993 of the request is held as 9007199254740992, and with limit 1 the
  reported page is 9007199254740992, which is \<open>floor(offset/limit) + 1\<close> for neither of
  the two.
\<close>

theorem pagination_large_offset_counterexample:
  "GET_feedback (example_env {})
     (list_request [(''websiteId'', ''1''), (''limit'', ''1''),
                    (''offset'', ''9007199254740993'')]) example_db
   = Success 200 ([], \<lparr>pg_total = 1, pg_page = 9007199254740992, pg_limit = 1,
                          pg_totalPages = 1\<rparr>) \<and>
   map_option q_offset (feedbackQuerySchema (raw_query_of (req_query
     (list_request [(''websiteId'', ''1''), (''limit'', ''1''),
                    (''offset'', ''9007199254740993'')])))) = Some 9007199254740992 \<and>
   \<lfloor>real_of_int 9007199254740992 / real_of_int 1\<rfloor> + 1 = (9007199254740993 :: int) \<and>
   \<lfloor>real_of_int 9007199254740993 / real_of_int 1\<rfloor> + 1 = (9007199254740994 :: int)"
proof -
  have p: "to_double 9007199254740993 = 9007199254740992"
    by (simp add: double_defs)
  have f: "double_floor (double_quotient 9007199254740992 1) = 9007199254740992"
    by (simp add: double_defs)
  show ?thesis
    using p f
    by (simp add: example_defs example_defs3 list_defs parse_defs page_defs)
qed

text \<open>An offset that is no 64-bit integer is refused by the store: the answer is 500.\<close>

lemma offset_out_of_range:
  "GET_feedback (example_env {})
     (list_request [(''websiteId'', ''1''), (''offset'', ''9223372036854775807'')]) example_db
   = Failure 500 ''Internal server error''"
proof -
  have p: "to_double 9223372036854775807 = 9223372036854775808"
    by (simp add: double_defs)
  show ?thesis
    using p
    by (simp add: example_defs example_defs3 list_defs parse_defs page_defs)
qed

section \<open>Category filter\<close>

text \<open>
  Claim C9. For a list request with a category slug (and a category lookup that does not
  throw): when no category of the requesting website has that slug, the response is the
  response to the same request without the category parameter, whatever that is; when the
  slug resolves to a category, every item of a successful response has that category's id
  and the total counts exactly the rows that pass the other conditions and have that id.
\<close>

theorem category_filter_silent_drop:
  assumes cat: "truthy (req_query r ''category'')" and nf: "ReadCategory \<notin> faults e"
  shows "(resolve_category d (websiteId_of r) (or_else (req_query r ''category'') []) = None \<longrightarrow>
            GET_feedback e r d =
            GET_feedback e (r\<lparr>req_query := (req_query r)(''category'' := None)\<rparr>) d) \<and>
         (\<forall>c items pg q.
            resolve_category d (websiteId_of r) (or_else (req_query r ''category'') []) = Some c \<and>
            GET_feedback e r d = Success 200 (items, pg) \<and>
            feedbackQuerySchema (raw_query_of (req_query r)) = Some q \<longrightarrow>
            (\<forall>it \<in> set items. fi_categoryId it = Some (c_id c)) \<and>
            pg_total pg = int (length (filter
               (\<lambda>f. all_hold (conditions (websiteId_of r) (q\<lparr>q_category := None\<rparr>) d) f \<and>
                    f_categoryId f = Some (c_id c)) (Feedback d))))"
proof (intro conjI impI allI)
  let ?r' = "r\<lparr>req_query := (req_query r)(''category'' := None)\<rparr>"
  assume none: "resolve_category d (websiteId_of r) (or_else (req_query r ''category'') []) = None"
  have ws: "websiteId_of ?r' = websiteId_of r" by (simp add: websiteId_of_query)
  have raw: "raw_query_of (req_query ?r') = (raw_query_of (req_query r))\<lparr>rq_category := None\<rparr>"
    by (simp add: raw_query_without_category)
  have rc: "rq_category (raw_query_of (req_query r)) = req_query r ''category''"
    using cat by (simp add: raw_query_of_def or_null_def)
  have "list_feedback e (websiteId_of r) q d =
        list_feedback e (websiteId_of r) (q\<lparr>q_category := None\<rparr>) d"
    if "feedbackQuerySchema (raw_query_of (req_query r)) = Some q" for q
  proof -
    have "q_category q = req_query r ''category''"
      using feedbackQuerySchema_Some [OF that] rc by simp
    then show ?thesis using list_feedback_unresolved [of q e d "websiteId_of r"] cat nf none
      by simp
  qed
  then show "GET_feedback e r d = GET_feedback e ?r' d"
    by (simp add: GET_feedback_def ws raw_query_without_category
          feedbackQuerySchema_category Let_def split: option.splits)
next
  fix c items pg q
  assume h: "resolve_category d (websiteId_of r) (or_else (req_query r ''category'') []) = Some c \<and>
            GET_feedback e r d = Success 200 (items, pg) \<and>
            feedbackQuerySchema (raw_query_of (req_query r)) = Some q"
  have rc: "rq_category (raw_query_of (req_query r)) = req_query r ''category''"
    using cat by (simp add: raw_query_of_def or_null_def)
  have qc: "q_category q = req_query r ''category''"
    using feedbackQuerySchema_Some [of "raw_query_of (req_query r)" q] h rc by simp
  have conds: "conditions (websiteId_of r) q d =
      conditions (websiteId_of r) (q\<lparr>q_category := None\<rparr>) d @ [EqCategoryId (c_id c)]"
    using conditions_resolved [of q d "websiteId_of r" c] cat h qc by simp
  from GET_feedback_ok [of e r d items pg] h
  have l: "list_feedback e (websiteId_of r) q d = Success 200 (items, pg)" by auto
  note ok = list_feedback_ok [OF l]
  show "\<forall>it \<in> set items. fi_categoryId it = Some (c_id c)"
  proof
    fix it assume "it \<in> set items"
    then obtain row where row: "row \<in> set (select_rows (conditions (websiteId_of r) q d)
        (orderBy (q_sort q)) (q_limit q) (q_offset q) d)" "it = to_item row"
      using ok by auto
    from select_rows_hold [OF row(1)] have "f_categoryId (fst row) = Some (c_id c)"
      unfolding conds by (simp add: all_hold_append all_hold_def)
    then show "fi_categoryId it = Some (c_id c)"
      using row(2) by (simp add: to_item_def split: prod.splits)
  qed
  show "pg_total pg = int (length (filter
               (\<lambda>f. all_hold (conditions (websiteId_of r) (q\<lparr>q_category := None\<rparr>) d) f \<and>
                    f_categoryId f = Some (c_id c)) (Feedback d)))"
    using ok unfolding conds by (simp add: all_hold_category)
qed

theorem category_filter_silent_drop_witness:
  "truthy (req_query (list_request [(''websiteId'', ''1''), (''category'', ''nope'')]) ''category'') \<and>
   ReadCategory \<notin> faults (example_env {}) \<and>
   resolve_category example_cat_db 1 ''nope'' = None \<and>
   GET_feedback (example_env {}) (list_request [(''websiteId'', ''1''), (''category'', ''nope'')])
      example_cat_db
     = GET_feedback (example_env {}) (list_request [(''websiteId'', ''1'')]) example_cat_db \<and>
   length (listed (GET_feedback (example_env {})
      (list_request [(''websiteId'', ''1''), (''category'', ''nope'')]) example_cat_db)) = 2 \<and>
   resolve_category example_cat_db 1 ''bugs'' = Some example_category \<and>
   GET_feedback (example_env {}) (list_request [(''websiteId'', ''1''), (''category'', ''bugs'')])
      example_cat_db
     = Success 200
        ([to_item ((example_item 1 High 1000 2 0)\<lparr>f_categoryId := Some 7\<rparr>, Some example_category)],
         \<lparr>pg_total = 1, pg_page = 1, pg_limit = 10, pg_totalPages = 1\<rparr>) \<and>
   fi_categoryId (to_item ((example_item 1 High 1000 2 0)\<lparr>f_categoryId := Some 7\<rparr>,
      Some example_category)) = Some (c_id example_category)"
proof -
  let ?e = "example_env {}"
  let ?rn = "list_request [(''websiteId'', ''1''), (''category'', ''nope'')]"
  let ?rb = "list_request [(''websiteId'', ''1''), (''category'', ''bugs'')]"
  let ?it = "to_item ((example_item 1 High 1000 2 0)\<lparr>f_categoryId := Some 7\<rparr>, Some example_category)"
  let ?pg = "\<lparr>pg_total = 1, pg_page = 1, pg_limit = 10, pg_totalPages = 1\<rparr>"
  have cn: "truthy (req_query ?rn ''category'')" and cb: "truthy (req_query ?rb ''category'')"
    by (simp_all add: list_request_def truthy_def)
  have nf: "ReadCategory \<notin> faults ?e" by (simp add: example_env_def)
  have wn: "websiteId_of ?rn = 1" and wb: "websiteId_of ?rb = 1"
    by (simp_all add: list_request_def websiteId_of_def parse_defs or_else_def)
  have sn: "or_else (req_query ?rn ''category'') [] = ''nope''"
    and sb: "or_else (req_query ?rb ''category'') [] = ''bugs''"
    by (simp_all add: list_request_def or_else_def)
  have none: "resolve_category example_cat_db 1 ''nope'' = None"
    by (simp add: example_defs example_defs3 resolve_category_def)
  have some: "resolve_category example_cat_db 1 ''bugs'' = Some example_category"
    by (simp add: example_defs example_defs3 resolve_category_def)
  have plain: "?rn\<lparr>req_query := (req_query ?rn)(''category'' := None)\<rparr>
      = list_request [(''websiteId'', ''1'')]"
    by (simp add: list_request_def fun_eq_iff)
  have two: "length (listed (GET_feedback ?e (list_request [(''websiteId'', ''1'')]) example_cat_db)) = 2"
    by (simp add: example_defs example_defs3 list_defs parse_defs Let_def)
  have g: "GET_feedback ?e ?rb example_cat_db = Success 200 ([?it], ?pg)"
    by (simp add: example_defs example_defs3 list_defs parse_defs Let_def ceiling_eq_iff)
  have q: "feedbackQuerySchema (raw_query_of (req_query ?rb))
      = Some \<lparr>q_status = None, q_type = None, q_category = Some ''bugs'', q_limit = 10,
               q_offset = 0, q_sort = Newest, q_public = None\<rparr>"
    by (simp add: example_defs3 admit_list_defs parse_defs Let_def)
  show ?thesis
    using category_filter_silent_drop [OF cn nf, of example_cat_db]
      category_filter_silent_drop [OF cb nf, of example_cat_db]
      cn nf none some plain two g q
    by (simp add: wn wb sn sb)
qed

section \<open>Defaults of limit and offset\<close>

text \<open>
  Claim C10. A \<open>limit\<close> parameter whose string parses to 0 or to no number at all is answered
  exactly like \<open>limit=10\<close>, and an \<open>offset\<close> that parses to no number exactly like
  \<open>offset=0\<close>: the default is put in before the bounds are checked. So a successful
  response to such a limit reports limit 10 and holds at most 10 items; the witness is
  \<open>limit=0\<close>, which is answered 200.
\<close>

theorem limit_default_substitution:
  "(req_query r ''limit'' = Some s \<and> (parseInt s = None \<or> parseInt s = Some 0) \<longrightarrow>
      GET_feedback e r d =
      GET_feedback e (r\<lparr>req_query := (req_query r)(''limit'' \<mapsto> ''10'')\<rparr>) d) \<and>
   (req_query r ''offset'' = Some s \<and> parseInt s = None \<longrightarrow>
      GET_feedback e r d =
      GET_feedback e (r\<lparr>req_query := (req_query r)(''offset'' \<mapsto> ''0'')\<rparr>) d) \<and>
   (req_query r ''limit'' = Some s \<and> (parseInt s = None \<or> parseInt s = Some 0) \<and>
    GET_feedback e r d = Success 200 (items, pg) \<longrightarrow>
      pg_limit pg = 10 \<and> length items \<le> 10)"
proof (intro conjI impI)
  assume h: "req_query r ''limit'' = Some s \<and> (parseInt s = None \<or> parseInt s = Some 0)"
  let ?r' = "r\<lparr>req_query := (req_query r)(''limit'' \<mapsto> ''10'')\<rparr>"
  have same: "(req_query r)(''limit'' \<mapsto> s) = req_query r" using h by (auto simp: fun_eq_iff)
  have "raw_query_of (req_query r)
        = (raw_query_of (req_query r))\<lparr>rq_limit := or_else (Some s) ''10''\<rparr>"
    using raw_query_limit [of "req_query r" s] same by simp
  moreover have "raw_query_of (req_query ?r')
        = (raw_query_of (req_query r))\<lparr>rq_limit := or_else (Some ''10'') ''10''\<rparr>"
    by (simp add: raw_query_limit)
  moreover have "num_or (parseInt (or_else (Some ''10'') ''10'')) 10
               = num_or (parseInt (or_else (Some s) ''10'')) 10"
    using limit_falls_back [of s] h by (simp add: or_else_def num_or_def parseInt_10)
  ultimately have "feedbackQuerySchema (raw_query_of (req_query ?r'))
         = feedbackQuerySchema (raw_query_of (req_query r))"
    using feedbackQuerySchema_limit by metis
  then show "GET_feedback e r d = GET_feedback e ?r' d"
    by (intro GET_feedback_raw [symmetric]) (simp_all add: websiteId_of_query)
next
  assume h: "req_query r ''offset'' = Some s \<and> parseInt s = None"
  let ?r' = "r\<lparr>req_query := (req_query r)(''offset'' \<mapsto> ''0'')\<rparr>"
  have same: "(req_query r)(''offset'' \<mapsto> s) = req_query r" using h by (auto simp: fun_eq_iff)
  have "raw_query_of (req_query r)
        = (raw_query_of (req_query r))\<lparr>rq_offset := or_else (Some s) ''0''\<rparr>"
    using raw_query_offset [of "req_query r" s] same by simp
  moreover have "raw_query_of (req_query ?r')
        = (raw_query_of (req_query r))\<lparr>rq_offset := or_else (Some ''0'') ''0''\<rparr>"
    by (simp add: raw_query_offset)
  moreover have "num_or (parseInt (or_else (Some ''0'') ''0'')) 0
               = num_or (parseInt (or_else (Some s) ''0'')) 0"
    using offset_falls_back [of s] h by (simp add: or_else_def num_or_def parseInt_0)
  ultimately have "feedbackQuerySchema (raw_query_of (req_query ?r'))
         = feedbackQuerySchema (raw_query_of (req_query r))"
    using feedbackQuerySchema_offset by metis
  then show "GET_feedback e r d = GET_feedback e ?r' d"
    by (intro GET_feedback_raw [symmetric]) (simp_all add: websiteId_of_query)
next
  assume h: "req_query r ''limit'' = Some s \<and> (parseInt s = None \<or> parseInt s = Some 0) \<and>
    GET_feedback e r d = Success 200 (items, pg)"
  from GET_feedback_ok [of e r d items pg] h obtain q where
    q: "feedbackQuerySchema (raw_query_of (req_query r)) = Some q"
    and l: "list_feedback e (websiteId_of r) q d = Success 200 (items, pg)"
    by blast
  have "rq_limit (raw_query_of (req_query r)) = or_else (Some s) ''10''"
    using h by (simp add: raw_query_of_def)
  then have lim: "q_limit q = 10"
    using feedbackQuerySchema_Some [OF q] limit_falls_back [of s] h by simp
  have "length items \<le> nat (q_limit q)"
    using list_feedback_ok [OF l] length_select_rows_le by simp
  then show "pg_limit pg = 10" and "length items \<le> 10"
    using list_feedback_ok [OF l] lim by simp_all
qed

theorem limit_default_substitution_witness:
  "req_query (list_request [(''websiteId'', ''1''), (''limit'', ''0'')]) ''limit'' = Some ''0'' \<and>
   parseInt ''0'' = Some 0 \<and>
   GET_feedback (example_env {}) (list_request [(''websiteId'', ''1''), (''limit'', ''0'')])
      example_many
     = Success 200
         (map to_item (select_rows [EqWebsiteId 1] (Desc CreatedAt) 10 0 example_many),
          \<lparr>pg_total = 25, pg_page = 1, pg_limit = 10, pg_totalPages = 3\<rparr>) \<and>
   length (map to_item (select_rows [EqWebsiteId 1] (Desc CreatedAt) 10 0 example_many)) \<le> 10 \<and>
   GET_feedback (example_env {}) (list_request [(''websiteId'', ''1''), (''limit'', ''0'')])
      example_many
     = GET_feedback (example_env {})
         ((list_request [(''websiteId'', ''1''), (''limit'', ''0'')])
            \<lparr>req_query := (req_query (list_request [(''websiteId'', ''1''), (''limit'', ''0'')]))
                             (''limit'' \<mapsto> ''10'')\<rparr>) example_many \<and>
   req_query (list_request [(''websiteId'', ''1''), (''offset'', ''abc'')]) ''offset'' = Some ''abc'' \<and>
   parseInt ''abc'' = None \<and>
   GET_feedback (example_env {}) (list_request [(''websiteId'', ''1''), (''offset'', ''abc'')])
      example_many
     = GET_feedback (example_env {})
         ((list_request [(''websiteId'', ''1''), (''offset'', ''abc'')])
            \<lparr>req_query := (req_query (list_request [(''websiteId'', ''1''), (''offset'', ''abc'')]))
                             (''offset'' \<mapsto> ''0'')\<rparr>) example_many"
proof -
  let ?e = "example_env {}"
  let ?r0 = "list_request [(''websiteId'', ''1''), (''limit'', ''0'')]"
  let ?ra = "list_request [(''websiteId'', ''1''), (''offset'', ''abc'')]"
  let ?items = "map to_item (select_rows [EqWebsiteId 1] (Desc CreatedAt) 10 0 example_many)"
  let ?pg = "\<lparr>pg_total = 25, pg_page = 1, pg_limit = 10, pg_totalPages = 3\<rparr>"
  have l0: "req_query ?r0 ''limit'' = Some ''0''" and oa: "req_query ?ra ''offset'' = Some ''abc''"
    by (simp_all add: list_request_def)
  have p0: "parseInt ''0'' = Some 0" and pa: "parseInt ''abc'' = None"
    by (simp_all add: parse_defs)
  have t: "length (filter (all_hold [EqWebsiteId 1]) (Feedback example_many)) = 25"
    by (simp add: example_defs example_defs3 all_hold_def filter_map o_def)
  have g: "GET_feedback ?e ?r0 example_many = Success 200 (?items, ?pg)"
    using t by (simp add: example_site_def example_db_def example_env_def example_defs3
        admit_list_defs parse_defs Let_def)
  show ?thesis
    using limit_default_substitution [of ?r0 "''0''" ?e example_many ?items ?pg]
      limit_default_substitution [of ?ra "''abc''" ?e example_many ?items ?pg]
      l0 oa p0 pa g
    by simp
qed

end
